theory Spec2Isabelle
  imports Complex_Main "HOL-Library.Log_Nat" "HOL-Library.AList"
begin

section \<open>Python values used by the image processing service\<close>

text \<open>
  The service of \<^verbatim>\<open>src/services/main.py\<close> is modelled function by function. The
  collaborators it calls (the HTTP client, the image library, the storage bucket, the
  uuid generator) are the fields of an environment record: each field says what the
  collaborator answers, and a \<open>None\<close> or an exception value says that the call raised.
  Wall-clock timestamps and log lines are left out.
\<close>

type_synonym bytes = "char list"

datatype py_exception = ValueError | ZeroDivisionError | OverflowError | KeyError string

subsection \<open>\<^verbatim>\<open>str.lower\<close>, \<^verbatim>\<open>str.startswith\<close>, \<^verbatim>\<open>str.split('x')\<close> and \<^verbatim>\<open>int(str)\<close> on ASCII text\<close>

definition lower_char :: "char \<Rightarrow> char" where
  "lower_char c =
     (case map_of (zip ''ABCDEFGHIJKLMNOPQRSTUVWXYZ'' ''abcdefghijklmnopqrstuvwxyz'') c of
        Some d \<Rightarrow> d
      | None \<Rightarrow> c)"

definition lower :: "string \<Rightarrow> string" where
  "lower s = map lower_char s"

definition startswith :: "string \<Rightarrow> string \<Rightarrow> bool" where
  "startswith s p = (take (length p) s = p)"

fun split_x :: "string \<Rightarrow> string list" where
  "split_x [] = [[]]"
| "split_x (c # cs) =
     (if c = CHR ''x'' then [] # split_x cs
      else (case split_x cs of [] \<Rightarrow> [[c]] | p # ps \<Rightarrow> (c # p) # ps))"

text \<open>The characters \<^verbatim>\<open>int\<close> strips from both ends: the space and 0x09 to 0x0D.\<close>

definition is_space :: "char \<Rightarrow> bool" where
  "is_space c = (c \<in> set [CHR '' '', CHR 0x09, CHR 0x0A, CHR 0x0B, CHR 0x0C, CHR 0x0D])"

definition strip :: "string \<Rightarrow> string" where
  "strip s = rev (dropWhile is_space (rev (dropWhile is_space s)))"

definition digit_val :: "char \<Rightarrow> nat option" where
  "digit_val c = map_of (zip ''0123456789'' [0, 1, 2, 3, 4, 5, 6, 7, 8, 9]) c"

text \<open>The digits after the first one: a single underscore may stand between two digits.\<close>

fun digits_value :: "string \<Rightarrow> nat \<Rightarrow> nat option" where
  "digits_value [] acc = Some acc"
| "digits_value (c # cs) acc =
     (case digit_val c of
        Some v \<Rightarrow> digits_value cs (10 * acc + v)
      | None \<Rightarrow>
          (if c = CHR ''_'' then
             (case cs of
                [] \<Rightarrow> None
              | d # ds \<Rightarrow>
                  (case digit_val d of
                     Some v \<Rightarrow> digits_value ds (10 * acc + v)
                   | None \<Rightarrow> None))
           else None))"

definition unsigned_int :: "string \<Rightarrow> nat option" where
  "unsigned_int s =
     (case s of
        [] \<Rightarrow> None
      | c # cs \<Rightarrow> (case digit_val c of Some v \<Rightarrow> digits_value cs v | None \<Rightarrow> None))"

text \<open>\<^verbatim>\<open>int(s)\<close>: \<open>None\<close> stands for the ValueError.\<close>

definition py_int :: "string \<Rightarrow> int option" where
  "py_int s =
     (case strip s of
        [] \<Rightarrow> None
      | c # cs \<Rightarrow>
          (if c = CHR ''-'' then map_option (\<lambda>n. - int n) (unsigned_int cs)
           else if c = CHR ''+'' then map_option int (unsigned_int cs)
           else map_option int (unsigned_int (c # cs))))"

subsection \<open>Binary64 floating point\<close>

text \<open>
  A finite Python float is a pair \<open>(m, e)\<close> of integers with value \<open>m * 2 ^ e\<close>. Every
  operation of the service on floats takes exact integers or floats and rounds the exact
  rational result \<open>n / d\<close> once, to the nearest binary64 value, ties to even:
  53 significant bits, the smallest exponent of the last place at \<open>-1074\<close>, and
  an overflow from \<open>2 ^ 1024\<close> on.
\<close>

type_synonym float = "int \<times> int"

text \<open>\<open>\<lfloor>log\<^sub>2 (n / d)\<rfloor>\<close> for positive \<open>n\<close> and \<open>d\<close>.\<close>

definition floor_log2 :: "int \<Rightarrow> int \<Rightarrow> int" where
  "floor_log2 n d =
     (let k = bitlen n - bitlen d
      in if (if 0 \<le> k then d * 2 ^ nat k \<le> n else d \<le> n * 2 ^ nat (- k)) then k else k - 1)"

definition round_half_even :: "int \<Rightarrow> int \<Rightarrow> int" where
  "round_half_even n d =
     (let q = n div d; r = n mod d
      in if 2 * r < d then q else if d < 2 * r then q + 1 else if even q then q else q + 1)"

text \<open>The float nearest to \<open>n / d\<close>, for \<open>0 < d\<close>; \<open>None\<close> is the overflow.\<close>

definition round_ratio :: "int \<Rightarrow> int \<Rightarrow> float option" where
  "round_ratio n d =
     (if n = 0 then Some (0, 0)
      else let e = max (floor_log2 \<bar>n\<bar> d - 52) (- 1074);
               m = (if 0 \<le> e then round_half_even \<bar>n\<bar> (d * 2 ^ nat e)
                    else round_half_even (\<bar>n\<bar> * 2 ^ nat (- e)) d)
           in if 0 \<le> e \<and> 2 ^ 1024 \<le> m * 2 ^ nat e then None else Some (sgn n * m, e))"

text \<open>The exact value of a float as a fraction: numerator and positive denominator.\<close>

definition float_num :: "float \<Rightarrow> int" where
  "float_num x = (case x of (m, e) \<Rightarrow> if 0 \<le> e then m * 2 ^ nat e else m)"

definition float_den :: "float \<Rightarrow> int" where
  "float_den x = (case x of (m, e) \<Rightarrow> if 0 \<le> e then 1 else 2 ^ nat (- e))"

text \<open>\<^verbatim>\<open>a / b\<close> on two Python ints (true division, correctly rounded).\<close>

definition int_true_div :: "int \<Rightarrow> int \<Rightarrow> py_exception + float" where
  "int_true_div a b =
     (if b = 0 then Inl ZeroDivisionError
      else (case round_ratio (a * sgn b) \<bar>b\<bar> of None \<Rightarrow> Inl OverflowError | Some x \<Rightarrow> Inr x))"

text \<open>The conversion of an int operand to float in mixed arithmetic.\<close>

definition float_of_int :: "int \<Rightarrow> py_exception + float" where
  "float_of_int a = (case round_ratio a 1 of None \<Rightarrow> Inl OverflowError | Some x \<Rightarrow> Inr x)"

text \<open>
  \<^verbatim>\<open>x * y\<close> and \<^verbatim>\<open>x / y\<close> on floats. Python returns an infinity where the result
  overflows, and the service passes every such result to \<^verbatim>\<open>int(...)\<close> at once, which
  raises OverflowError on an infinity: the model raises it here.
\<close>

definition float_mul :: "float \<Rightarrow> float \<Rightarrow> py_exception + float" where
  "float_mul x y =
     (case round_ratio (float_num x * float_num y) (float_den x * float_den y) of
        None \<Rightarrow> Inl OverflowError
      | Some z \<Rightarrow> Inr z)"

definition float_div :: "float \<Rightarrow> float \<Rightarrow> py_exception + float" where
  "float_div x y =
     (if float_num y = 0 then Inl ZeroDivisionError
      else (case round_ratio (float_num x * float_den y * sgn (float_num y))
                             (float_den x * \<bar>float_num y\<bar>) of
              None \<Rightarrow> Inl OverflowError
            | Some z \<Rightarrow> Inr z))"

definition float_gt :: "float \<Rightarrow> float \<Rightarrow> bool" where
  "float_gt x y = (float_num y * float_den x < float_num x * float_den y)"

text \<open>\<^verbatim>\<open>int(x)\<close> on a finite float truncates towards zero.\<close>

definition int_of_float :: "float \<Rightarrow> int" where
  "int_of_float x = sgn (float_num x) * (\<bar>float_num x\<bar> div float_den x)"

text \<open>\<^verbatim>\<open>n * x\<close> and \<^verbatim>\<open>n / x\<close> with an int \<open>n\<close> and a float \<open>x\<close>.\<close>

definition int_mul_float :: "int \<Rightarrow> float \<Rightarrow> py_exception + float" where
  "int_mul_float n x = (case float_of_int n of Inl err \<Rightarrow> Inl err | Inr y \<Rightarrow> float_mul y x)"

definition int_div_float :: "int \<Rightarrow> float \<Rightarrow> py_exception + float" where
  "int_div_float n x = (case float_of_int n of Inl err \<Rightarrow> Inl err | Inr y \<Rightarrow> float_div y x)"

text \<open>The real number a float stands for.\<close>

definition float_val :: "float \<Rightarrow> real" where
  "float_val x = real_of_int (fst x) * 2 powi (snd x)"

section \<open>The collaborators\<close>

datatype 'a io = Done 'a | TimedOut | Failed

record response =
  http_status :: nat
  content_type_header :: "string option"
  content_length_header :: "string option"
  body :: "bytes io"

text \<open>
  An image object of the imaging library, as far as the service reads it: its size and its
  mode. Opening an image reads the header only; the pixel data are read by the first
  operation that needs them.
\<close>

record image =
  img_width :: nat
  img_height :: nat
  img_mode :: string

text \<open>
  A key of the dictionary \<^verbatim>\<open>exif_data\<close>: \<^verbatim>\<open>TAGS.get(tag_id, tag_id)\<close> is the name of a
  tag the table knows and the number of the tag otherwise.
\<close>

datatype exif_key = TagName string | TagId int

text \<open>
  The dictionary \<^verbatim>\<open>extract_image_metadata\<close> returns: the one with the key
  \<^verbatim>\<open>error\<close>, or the one with width, height, mode, the EXIF dictionary and the
  dominant colour where there is one. Format and \<^verbatim>\<open>has_transparency\<close> are read from
  the header and cannot raise; they are left out.
\<close>

datatype image_metadata =
    MetadataError
  | Metadata nat nat string "(exif_key \<times> string) list" "(nat \<times> nat \<times> nat) option"

text \<open>The format and quality a save is called with.\<close>

datatype codec = JPEG nat | WEBP nat | PNG

text \<open>
  What \<^verbatim>\<open>blob.upload_from_string\<close> followed by \<^verbatim>\<open>blob.make_public\<close> does: the
  object is written and made public, the object is written and \<^verbatim>\<open>make_public\<close>
  raises, or the upload itself raises.
\<close>

datatype put_outcome = Stored | StoredNotPublic | NotStored

text \<open>
  The calls into the imaging library return \<open>None\<close> where the call raises.
  \<^item> \<open>pil_open\<close> is \<^verbatim>\<open>Image.open\<close>;
  \<^item> \<open>pil_getexif\<close> gives the items of \<^verbatim>\<open>img._getexif()\<close>, each value under
    \<^verbatim>\<open>str\<close>, and no item for an image without that method or without EXIF data;
  \<^item> \<open>exif_tags\<close> is the table \<^verbatim>\<open>PIL.ExifTags.TAGS\<close>;
  \<^item> \<open>pil_dominant_color\<close> is lines 117 to 120: the most frequent colour of the image
    resized to 50 by 50, \<open>Some None\<close> when \<^verbatim>\<open>getcolors\<close> finds more than 256 colours;
  \<^item> \<open>pil_exif_transpose\<close> is \<^verbatim>\<open>ImageOps.exif_transpose\<close>;
  \<^item> \<open>pil_flatten\<close> is the pasting onto a white RGB image of lines 141 to 145 and 206
    to 210;
  \<^item> \<open>pil_thumbnail\<close> is \<^verbatim>\<open>img.thumbnail((150, 150), LANCZOS)\<close>, \<open>pil_resize\<close> is
    \<^verbatim>\<open>img.resize\<close> and \<open>pil_save\<close> is \<^verbatim>\<open>img.save\<close> into a buffer.
\<close>

record env =
  http_get :: "string \<Rightarrow> response io"
  sha256 :: "bytes \<Rightarrow> string"
  pil_open :: "bytes \<Rightarrow> image option"
  pil_getexif :: "image \<Rightarrow> (int \<times> string) list option"
  exif_tags :: "int \<Rightarrow> string option"
  pil_dominant_color :: "image \<Rightarrow> (nat \<times> nat \<times> nat) option option"
  pil_exif_transpose :: "image \<Rightarrow> image option"
  pil_flatten :: "image \<Rightarrow> image option"
  pil_thumbnail :: "image \<Rightarrow> image option"
  pil_resize :: "image \<Rightarrow> int \<times> int \<Rightarrow> image option"
  pil_save :: "image \<Rightarrow> codec \<Rightarrow> bytes option"
  bucket_name :: string
  bucket_put :: "string \<Rightarrow> bytes \<Rightarrow> put_outcome"
  uuid4_first :: string
  uuid4_second :: string

section \<open>\<^verbatim>\<open>ImageProcessor.download_image\<close>\<close>

definition max_image_size :: int where
  "max_image_size = 50 * 1024 * 1024"

datatype download_reason =
    HttpStatus nat
  | InvalidContentType string
  | BadContentLength
  | ImageTooLarge int
  | ClientError

text \<open>The strings the job appends to its error list, by the statement that raised them.\<close>

datatype error =
    DownloadTimeout string
  | DownloadFailed download_reason
  | ThumbnailFailed
  | UploadFailed string

record download_metadata =
  dl_original_url :: string
  dl_content_type :: string
  dl_content_length :: nat
  dl_http_status :: nat
  dl_content_hash :: string

definition download_image :: "env \<Rightarrow> string \<Rightarrow> error + (bytes \<times> download_metadata)" where
  "download_image env u =
     (case http_get env u of
        TimedOut \<Rightarrow> Inl (DownloadTimeout u)
      | Failed \<Rightarrow> Inl (DownloadFailed ClientError)
      | Done response \<Rightarrow>
          if http_status response \<noteq> 200 then Inl (DownloadFailed (HttpStatus (http_status response)))
          else
            let content_type = lower (case content_type_header response of None \<Rightarrow> [] | Some v \<Rightarrow> v)
            in if \<not> startswith content_type ''image/''
               then Inl (DownloadFailed (InvalidContentType content_type))
               else
                 (case (case content_length_header response of None \<Rightarrow> Some 0 | Some v \<Rightarrow> py_int v) of
                    None \<Rightarrow> Inl (DownloadFailed BadContentLength)
                  | Some content_length \<Rightarrow>
                      if max_image_size < content_length
                      then Inl (DownloadFailed (ImageTooLarge content_length))
                      else
                        (case body response of
                           TimedOut \<Rightarrow> Inl (DownloadTimeout u)
                         | Failed \<Rightarrow> Inl (DownloadFailed ClientError)
                         | Done image_data \<Rightarrow>
                             Inr (image_data,
                                  \<lparr>dl_original_url = u,
                                   dl_content_type = content_type,
                                   dl_content_length = length image_data,
                                   dl_http_status = http_status response,
                                   dl_content_hash = sha256 env image_data\<rparr>))))"

section \<open>\<^verbatim>\<open>ImageProcessor.extract_image_metadata\<close>\<close>

text \<open>Lines 106 to 110: the EXIF dictionary, a later item replacing an earlier one of its key.\<close>

definition tag_name :: "env \<Rightarrow> int \<Rightarrow> exif_key" where
  "tag_name env tag_id = (case exif_tags env tag_id of None \<Rightarrow> TagId tag_id | Some name \<Rightarrow> TagName name)"

definition exif_dict :: "env \<Rightarrow> (int \<times> string) list \<Rightarrow> (exif_key \<times> string) list" where
  "exif_dict env exif =
     foldl (\<lambda>exif_data item. AList.update (tag_name env (fst item)) (snd item) exif_data) [] exif"

text \<open>
  Whatever raises inside the \<^verbatim>\<open>try\<close> gives the dictionary with the error. The colour
  analysis, the one statement that reads pixel data, runs for an image of mode RGB only.
\<close>

definition extract_image_metadata :: "env \<Rightarrow> bytes \<Rightarrow> image_metadata" where
  "extract_image_metadata env image_data =
     (case pil_open env image_data of
        None \<Rightarrow> MetadataError
      | Some img \<Rightarrow>
          (case pil_getexif env img of
             None \<Rightarrow> MetadataError
           | Some exif \<Rightarrow>
               if img_mode img = ''RGB'' then
                 (case pil_dominant_color env img of
                    None \<Rightarrow> MetadataError
                  | Some dominant_color \<Rightarrow>
                      Metadata (img_width img) (img_height img) (img_mode img)
                        (exif_dict env exif) dominant_color)
               else
                 Metadata (img_width img) (img_height img) (img_mode img) (exif_dict env exif) None))"

section \<open>The conversion to RGB of \<^verbatim>\<open>resize_image\<close> and \<^verbatim>\<open>create_thumbnail\<close>\<close>

text \<open>Lines 140 to 145 and 205 to 210: an image of mode RGBA, LA or P is pasted onto white.\<close>

definition to_rgb :: "env \<Rightarrow> image \<Rightarrow> image option" where
  "to_rgb env img =
     (if img_mode img \<in> set [''RGBA'', ''LA'', ''P''] then pil_flatten env img else Some img)"

section \<open>\<^verbatim>\<open>ImageProcessor.resize_image\<close>\<close>

text \<open>\<^verbatim>\<open>width, height = map(int, size_str.split('x'))\<close>\<close>

definition parse_size :: "string \<Rightarrow> py_exception + (int \<times> int)" where
  "parse_size size_str =
     (case split_x size_str of
        [a, b] \<Rightarrow>
          (case py_int a of
             None \<Rightarrow> Inl ValueError
           | Some w \<Rightarrow> (case py_int b of None \<Rightarrow> Inl ValueError | Some h \<Rightarrow> Inr (w, h)))
      | _ \<Rightarrow> Inl ValueError)"

text \<open>
  The aspect-preserving size of lines 153 to 163, for an image of \<open>iw\<close> by \<open>ih\<close>
  pixels (\<^verbatim>\<open>img.width\<close>, \<^verbatim>\<open>img.height\<close>) and the parsed target \<open>width\<close> by
  \<open>height\<close>.
\<close>

definition new_size :: "nat \<Rightarrow> nat \<Rightarrow> int \<Rightarrow> int \<Rightarrow> py_exception + (int \<times> int)" where
  "new_size iw ih width height =
     (case int_true_div (int iw) (int ih) of
        Inl err \<Rightarrow> Inl err
      | Inr img_ratio \<Rightarrow>
          (case int_true_div width height of
             Inl err \<Rightarrow> Inl err
           | Inr target_ratio \<Rightarrow>
               if float_gt img_ratio target_ratio then
                 (case int_div_float width img_ratio of
                    Inl err \<Rightarrow> Inl err
                  | Inr q \<Rightarrow> Inr (width, int_of_float q))
               else
                 (case int_mul_float height img_ratio of
                    Inl err \<Rightarrow> Inl err
                  | Inr p \<Rightarrow> Inr (int_of_float p, height))))"

definition codec_of :: "string \<Rightarrow> codec option" where
  "codec_of fmt =
     (if lower fmt = ''jpeg'' then Some (JPEG 85)
      else if lower fmt = ''webp'' then Some (WEBP 85)
      else if lower fmt = ''png'' then Some PNG
      else None)"

text \<open>
  The loop over \<open>output_formats\<close> with the resized image: an unsupported format is
  skipped, a save that raises leaves the loop (the handler of the target catches it), and
  what \<open>results\<close> had by then stays.
\<close>

fun save_formats ::
  "env \<Rightarrow> image \<Rightarrow> string \<Rightarrow> string list \<Rightarrow> (string \<times> bytes) list \<Rightarrow> (string \<times> bytes) list"
where
  "save_formats env resized_img size_str [] results = results"
| "save_formats env resized_img size_str (fmt # fmts) results =
     (case codec_of fmt of
        None \<Rightarrow> save_formats env resized_img size_str fmts results
      | Some c \<Rightarrow>
          (case pil_save env resized_img c of
             None \<Rightarrow> results
           | Some data \<Rightarrow>
               save_formats env resized_img size_str fmts
                 (AList.update (size_str @ ''_'' @ lower fmt) data results)))"

definition resize_target ::
  "env \<Rightarrow> image \<Rightarrow> string list \<Rightarrow> string \<Rightarrow> (string \<times> bytes) list \<Rightarrow> (string \<times> bytes) list"
where
  "resize_target env img output_formats size_str results =
     (case parse_size size_str of
        Inl err \<Rightarrow> results
      | Inr (w, h) \<Rightarrow>
          (case new_size (img_width img) (img_height img) w h of
             Inl err \<Rightarrow> results
           | Inr dims \<Rightarrow>
               (case pil_resize env img dims of
                  None \<Rightarrow> results
                | Some resized_img \<Rightarrow> save_formats env resized_img size_str output_formats results)))"

definition resize_image :: "env \<Rightarrow> bytes \<Rightarrow> string list \<Rightarrow> string list \<Rightarrow> (string \<times> bytes) list" where
  "resize_image env image_data target_sizes output_formats =
     (case pil_open env image_data of
        None \<Rightarrow> []
      | Some opened \<Rightarrow>
          (case pil_exif_transpose env opened of
             None \<Rightarrow> []
           | Some oriented \<Rightarrow>
               (case to_rgb env oriented of
                  None \<Rightarrow> []
                | Some img \<Rightarrow>
                    foldl (\<lambda>results size_str. resize_target env img output_formats size_str results)
                      [] target_sizes)))"

section \<open>\<^verbatim>\<open>ImageProcessor.create_thumbnail\<close> and \<^verbatim>\<open>upload_to_storage\<close>\<close>

definition create_thumbnail :: "env \<Rightarrow> bytes \<Rightarrow> error + bytes" where
  "create_thumbnail env image_data =
     (case pil_open env image_data of
        None \<Rightarrow> Inl ThumbnailFailed
      | Some opened \<Rightarrow>
          (case pil_exif_transpose env opened of
             None \<Rightarrow> Inl ThumbnailFailed
           | Some oriented \<Rightarrow>
               (case pil_thumbnail env oriented of
                  None \<Rightarrow> Inl ThumbnailFailed
                | Some small \<Rightarrow>
                    (case to_rgb env small of
                       None \<Rightarrow> Inl ThumbnailFailed
                     | Some rgb_img \<Rightarrow>
                         (case pil_save env rgb_img (JPEG 80) of
                            None \<Rightarrow> Inl ThumbnailFailed
                          | Some data \<Rightarrow> Inr data)))))"

text \<open>
  The bucket is the list of the object names written so far; \<open>upload_to_storage\<close> takes it
  and returns it with the new name when the object was written.
\<close>

definition upload_to_storage ::
  "env \<Rightarrow> bytes \<Rightarrow> string \<Rightarrow> string list \<Rightarrow> (error + string) \<times> string list"
where
  "upload_to_storage env file_data file_path written =
     (case bucket_put env file_path file_data of
        NotStored \<Rightarrow> (Inl (UploadFailed file_path), written)
      | StoredNotPublic \<Rightarrow> (Inl (UploadFailed file_path), written @ [file_path])
      | Stored \<Rightarrow> (Inr (''gs://'' @ bucket_name env @ ''/'' @ file_path), written @ [file_path]))"

section \<open>\<^verbatim>\<open>ImageProcessor.process_image_job\<close>\<close>

text \<open>
  A job is the dictionary of a message. A key that may be absent is an option; a key that
  is present holds a value of the type the publisher of \<^verbatim>\<open>src/functions/main.py\<close>
  gives it. \<open>other_keys\<close> are the keys the processor never reads (priority, category,
  and so on).
\<close>

record processing_options =
  opt_create_thumbnail :: "bool option"
  opt_resize_formats :: "string list option"
  opt_output_formats :: "string list option"

record job =
  job_id :: "string option"
  image_id :: "string option"
  url :: "string option"
  options :: "processing_options option"
  other_keys :: "string list"

datatype job_status = Processing | Completed | JobFailed

record result =
  res_job_id :: string
  res_image_id :: string
  res_original_url :: string
  status :: job_status
  out_original :: "string option"
  out_thumbnail :: "string option"
  out_resized :: "(string \<times> string) list option"
  meta_download :: "download_metadata option"
  meta_image :: "image_metadata option"
  errors :: "error list"

text \<open>The three path templates of lines 279, 292 and 311.\<close>

definition original_path :: "string \<Rightarrow> string" where
  "original_path iid = ''original/'' @ iid @ ''/'' @ iid @ ''_original.jpg''"

definition thumbnail_path :: "string \<Rightarrow> string" where
  "thumbnail_path iid = ''thumbnails/'' @ iid @ ''/'' @ iid @ ''_thumb.jpg''"

definition resized_path :: "string \<Rightarrow> string \<Rightarrow> string" where
  "resized_path iid size_format = ''resized/'' @ iid @ ''/'' @ iid @ ''_'' @ size_format"

text \<open>
  A run is the result being built together with the bucket. The handler of line 330 gets
  the run as the failing statement left it.
\<close>

type_synonym run = "result \<times> string list"

definition handler :: "error \<Rightarrow> run \<Rightarrow> run" where
  "handler e st = (case st of (r, written) \<Rightarrow> (r\<lparr>status := JobFailed, errors := errors r @ [e]\<rparr>, written))"

text \<open>\<^verbatim>\<open>job.get('processing_options', {})\<close> and the three \<^verbatim>\<open>.get\<close> on it, with their defaults.\<close>

definition get_create_thumbnail :: "job \<Rightarrow> bool" where
  "get_create_thumbnail j =
     (case options j of
        None \<Rightarrow> True
      | Some po \<Rightarrow> (case opt_create_thumbnail po of None \<Rightarrow> True | Some b \<Rightarrow> b))"

definition get_resize_formats :: "job \<Rightarrow> string list" where
  "get_resize_formats j =
     (case options j of
        None \<Rightarrow> [''400x300'']
      | Some po \<Rightarrow> (case opt_resize_formats po of None \<Rightarrow> [''400x300''] | Some l \<Rightarrow> l))"

definition get_output_formats :: "job \<Rightarrow> string list" where
  "get_output_formats j =
     (case options j of
        None \<Rightarrow> [''jpeg'']
      | Some po \<Rightarrow> (case opt_output_formats po of None \<Rightarrow> [''jpeg''] | Some l \<Rightarrow> l))"

text \<open>Step 4, lines 289 to 298. \<open>Inl\<close> is the run after the handler, \<open>Inr\<close> the run that goes on.\<close>

definition thumbnail_step :: "env \<Rightarrow> job \<Rightarrow> string \<Rightarrow> bytes \<Rightarrow> run \<Rightarrow> run + run" where
  "thumbnail_step env j iid image_data st =
     (if get_create_thumbnail j then
        (case create_thumbnail env image_data of
           Inl e \<Rightarrow> Inl (handler e st)
         | Inr thumbnail_data \<Rightarrow>
             (case upload_to_storage env thumbnail_data (thumbnail_path iid) (snd st) of
                (Inl e, written) \<Rightarrow> Inl (handler e (fst st, written))
              | (Inr thumbnail_url, written) \<Rightarrow>
                  Inr ((fst st)\<lparr>out_thumbnail := Some thumbnail_url\<rparr>, written)))
      else Inr st)"

text \<open>The loop of lines 310 to 317 over the items of \<open>resized_images\<close>.\<close>

fun upload_resized :: "env \<Rightarrow> string \<Rightarrow> (string \<times> bytes) list \<Rightarrow> run \<Rightarrow> run + run" where
  "upload_resized env iid [] st = Inr st"
| "upload_resized env iid ((size_format, resized_data) # items) st =
     (case upload_to_storage env resized_data (resized_path iid size_format) (snd st) of
        (Inl e, written) \<Rightarrow> Inl (handler e (fst st, written))
      | (Inr resized_url, written) \<Rightarrow>
          upload_resized env iid items
            ((fst st)\<lparr>out_resized :=
                 map_option (AList.update size_format resized_url) (out_resized (fst st))\<rparr>,
             written))"

text \<open>Step 5, lines 301 to 317.\<close>

definition resize_step :: "env \<Rightarrow> job \<Rightarrow> string \<Rightarrow> bytes \<Rightarrow> run \<Rightarrow> run + run" where
  "resize_step env j iid image_data st =
     (if get_resize_formats j \<noteq> [] then
        upload_resized env iid
          (resize_image env image_data (get_resize_formats j) (get_output_formats j))
          ((fst st)\<lparr>out_resized := Some []\<rparr>, snd st)
      else Inr st)"

text \<open>The body of the \<^verbatim>\<open>try\<close> of line 267 with its handler, from the result of line 256.\<close>

definition run_stages :: "env \<Rightarrow> job \<Rightarrow> string \<Rightarrow> string \<Rightarrow> string \<Rightarrow> run" where
  "run_stages env j jid iid u =
     (let r0 = \<lparr>res_job_id = jid, res_image_id = iid, res_original_url = u, status = Processing,
                out_original = None, out_thumbnail = None, out_resized = None,
                meta_download = None, meta_image = None, errors = []\<rparr>
      in case download_image env u of
           Inl e \<Rightarrow> handler e (r0, [])
         | Inr (image_data, download_metadata) \<Rightarrow>
             let r1 = r0\<lparr>meta_download := Some download_metadata\<rparr>;
                 r2 = r1\<lparr>meta_image := Some (extract_image_metadata env image_data)\<rparr>
             in (case upload_to_storage env image_data (original_path iid) [] of
                   (Inl e, written) \<Rightarrow> handler e (r2, written)
                 | (Inr original_url, written) \<Rightarrow>
                     (case thumbnail_step env j iid image_data
                             (r2\<lparr>out_original := Some original_url\<rparr>, written) of
                        Inl st \<Rightarrow> st
                      | Inr st4 \<Rightarrow>
                          (case resize_step env j iid image_data st4 of
                             Inl st \<Rightarrow> st
                           | Inr st5 \<Rightarrow> ((fst st5)\<lparr>status := Completed\<rparr>, snd st5)))))"

text \<open>
  Lines 250 to 252 read the three keys before the \<^verbatim>\<open>try\<close>: a missing key raises
  KeyError out of the function.
\<close>

definition process_image_job :: "env \<Rightarrow> job \<Rightarrow> py_exception + run" where
  "process_image_job env j =
     (case job_id j of
        None \<Rightarrow> Inl (KeyError ''job_id'')
      | Some jid \<Rightarrow>
          (case image_id j of
             None \<Rightarrow> Inl (KeyError ''image_id'')
           | Some iid \<Rightarrow>
               (case url j of
                  None \<Rightarrow> Inl (KeyError ''url'')
                | Some u \<Rightarrow> Inr (run_stages env j jid iid u))))"

section \<open>\<^verbatim>\<open>PubSubHandler.process_message\<close>\<close>

text \<open>
  The data of a message either decodes to a JSON object, the job, or it does not
  (\<^verbatim>\<open>json.loads\<close> or \<^verbatim>\<open>job_data.get\<close> raises). \<^verbatim>\<open>update_job_status\<close> catches its
  own exceptions, so the message is acknowledged once the processor has returned.
\<close>

datatype message_data = NotAnObject | JobObject job

datatype disposition = Ack | Nack

definition process_message :: "env \<Rightarrow> message_data \<Rightarrow> disposition \<times> run option" where
  "process_message env message =
     (case message of
        NotAnObject \<Rightarrow> (Nack, None)
      | JobObject job_data \<Rightarrow>
          (case process_image_job env job_data of
             Inl exn \<Rightarrow> (Nack, None)
           | Inr st \<Rightarrow> (Ack, Some st)))"

section \<open>\<^verbatim>\<open>process_single_image\<close>, the handler of POST /process\<close>



text \<open>
  \<^verbatim>\<open>jsonify(result)\<close>: the application serialises with sorted keys, and sorting the keys
  of a dictionary that holds a string beside a number raises TypeError. In a result the
  EXIF dictionary alone can hold both. \<open>None\<close> stands for the TypeError.
\<close>

definition is_tag_name :: "exif_key \<Rightarrow> bool" where
  "is_tag_name k = (case k of TagName name \<Rightarrow> True | TagId tag_id \<Rightarrow> False)"

definition mixed_keys :: "(exif_key \<times> string) list \<Rightarrow> bool" where
  "mixed_keys exif_data =
     (list_ex (\<lambda>item. is_tag_name (fst item)) exif_data \<and>
      list_ex (\<lambda>item. \<not> is_tag_name (fst item)) exif_data)"





section \<open>Sample inputs\<close>

text \<open>
  A server that answers 200 with an image and no content-length header, an image library
  that decodes it to 1600 by 1200 pixels of mode RGB with one EXIF tag, the maker, and a
  bucket that stores every object.
\<close>

definition sample_response :: response where
  "sample_response =
     \<lparr>http_status = 200, content_type_header = Some ''image/jpeg'',
      content_length_header = None, body = Done ''abc''\<rparr>"

definition sample_env :: env where
  "sample_env =
     \<lparr>http_get = (\<lambda>u. Done sample_response),
      sha256 = (\<lambda>d. ''digest''),
      pil_open = (\<lambda>d. Some \<lparr>img_width = 1600, img_height = 1200, img_mode = ''RGB''\<rparr>),
      pil_getexif = (\<lambda>i. Some [(271, ''Canon'')]),
      exif_tags = (\<lambda>t. if t = 271 then Some ''Make'' else None),
      pil_dominant_color = (\<lambda>i. Some (Some (255, 255, 255))),
      pil_exif_transpose = (\<lambda>i. Some i),
      pil_flatten = (\<lambda>i. Some (i\<lparr>img_mode := ''RGB''\<rparr>)),
      pil_thumbnail = (\<lambda>i. Some (i\<lparr>img_width := 150, img_height := 112\<rparr>)),
      pil_resize = (\<lambda>i dims. if fst dims < 1 \<or> snd dims < 1 then None
                              else Some (i\<lparr>img_width := nat (fst dims), img_height := nat (snd dims)\<rparr>)),
      pil_save = (\<lambda>i c. Some (if c = JPEG 80 then ''thumb'' else ''data'')),
      bucket_name = ''bucket'',
      bucket_put = (\<lambda>p d. Stored),
      uuid4_first = ''uuid-1'',
      uuid4_second = ''uuid-2''\<rparr>"

definition sample_options :: processing_options where
  "sample_options =
     \<lparr>opt_create_thumbnail = Some True, opt_resize_formats = Some [''800x600''],
      opt_output_formats = Some [''JPEG'', ''gif'']\<rparr>"

definition sample_job :: job where
  "sample_job =
     \<lparr>job_id = Some ''job1'', image_id = Some ''img1'', url = Some ''http://host/a.jpg'',
      options = Some sample_options, other_keys = [''priority'']\<rparr>"

text \<open>Variations: a 404 answer, a body of 50MB and one byte, a thumbnail that cannot be
  made, bytes that do not open as an image, bytes that open as a palette image whose pixel
  data cannot be read, an image with an EXIF tag the table does not name, and a job that
  asks for no thumbnail.\<close>

definition not_found_env :: env where
  "not_found_env = sample_env\<lparr>http_get := (\<lambda>u. Done (sample_response\<lparr>http_status := 404\<rparr>))\<rparr>"

definition oversized_env :: env where
  "oversized_env =
     sample_env\<lparr>http_get :=
       (\<lambda>u. Done (sample_response\<lparr>body := Done (replicate 52428801 (CHR ''a''))\<rparr>))\<rparr>"

definition no_thumbnail_env :: env where
  "no_thumbnail_env = sample_env\<lparr>pil_thumbnail := (\<lambda>i. None)\<rparr>"


definition truncated_env :: env where
  "truncated_env =
     sample_env\<lparr>pil_open := (\<lambda>d. Some \<lparr>img_width = 1600, img_height = 1200, img_mode = ''P''\<rparr>),
                pil_dominant_color := (\<lambda>i. None),
                pil_exif_transpose := (\<lambda>i. None),
                pil_flatten := (\<lambda>i. None),
                pil_thumbnail := (\<lambda>i. None),
                pil_resize := (\<lambda>i dims. None)\<rparr>"



section \<open>Download failures\<close>

text \<open>
  C3. A download answered with a status outside 200..299 fails with the download error
  for that status, the job ends failed with that one error, nothing is written to the
  bucket, and the outputs hold no original, thumbnail or resized entry.
\<close>

theorem non_2xx_download_fails:
  assumes "http_get env u = Done response"
    and "http_status response < 200 \<or> 299 < http_status response"
    and "job_id j = Some jid" and "image_id j = Some iid" and "url j = Some u"
  shows "download_image env u = Inl (DownloadFailed (HttpStatus (http_status response))) \<and>
         process_image_job env j =
           Inr (\<lparr>res_job_id = jid, res_image_id = iid, res_original_url = u, status = JobFailed,
                 out_original = None, out_thumbnail = None, out_resized = None,
                 meta_download = None, meta_image = None,
                 errors = [DownloadFailed (HttpStatus (http_status response))]\<rparr>, [])"
proof -
  from assms(2) have ne: "http_status response \<noteq> 200" by auto
  have dl: "download_image env u = Inl (DownloadFailed (HttpStatus (http_status response)))"
    using assms(1) ne by (simp add: download_image_def)
  show ?thesis
    using dl assms(3-5) by (simp add: process_image_job_def run_stages_def handler_def)
qed

theorem non_2xx_download_fails_witness:
  "process_image_job not_found_env sample_job =
     Inr (\<lparr>res_job_id = ''job1'', res_image_id = ''img1'', res_original_url = ''http://host/a.jpg'',
           status = JobFailed, out_original = None, out_thumbnail = None, out_resized = None,
           meta_download = None, meta_image = None,
           errors = [DownloadFailed (HttpStatus 404)]\<rparr>, [])"
  using non_2xx_download_fails [of not_found_env "''http://host/a.jpg''"
      "sample_response\<lparr>http_status := 404\<rparr>" sample_job "''job1''" "''img1''"]
  by (simp add: not_found_env_def sample_job_def)

section \<open>The aspect-preserving size\<close>

text \<open>
  The division, the product and the conversion never raise while the sizes stay below
  \<open>2 ^ 500\<close>: the rounding keeps a positive quotient within a factor two, so no
  intermediate result reaches the overflow threshold and the ratio is never zero.
\<close>

lemma bitlen_lower: "0 < x \<Longrightarrow> 2 ^ nat (bitlen x - 1) \<le> x"
  using bitlen_bounds [of x] by simp

lemma bitlen_upper: "0 < x \<Longrightarrow> x < 2 ^ nat (bitlen x)"
  using bitlen_bounds [of x] by simp

lemma bitlen_pos: "0 < x \<Longrightarrow> 1 \<le> bitlen x"
  by (simp add: bitlen_alt_def)

lemma powi_nat_int: "0 \<le> k \<Longrightarrow> (2::real) powi k = 2 ^ nat k"
  by (simp add: power_int_def)

lemma real_pow2_le: "(2::int) ^ k \<le> x \<Longrightarrow> (2::real) ^ k \<le> real_of_int x"
proof -
  assume "(2::int) ^ k \<le> x"
  then have "real_of_int (2 ^ k) \<le> real_of_int x" by (simp only: of_int_le_iff)
  then show ?thesis by simp
qed

lemma real_pow2_less: "x < (2::int) ^ k \<Longrightarrow> real_of_int x < (2::real) ^ k"
proof -
  assume "x < (2::int) ^ k"
  then have "real_of_int x < real_of_int (2 ^ k)" by (simp only: of_int_less_iff)
  then show ?thesis by simp
qed

lemma powi_neg_int: "k < 0 \<Longrightarrow> (2::real) powi k = 1 / 2 ^ nat (- k)"
  by (simp add: power_int_def field_simps)

lemma floor_log2_bounds:
  assumes "0 < n" and "0 < d"
  shows "real_of_int d * 2 powi (floor_log2 n d) \<le> real_of_int n"
    and "real_of_int n < real_of_int d * 2 powi (floor_log2 n d + 1)"
proof -
  define bn where "bn = bitlen n"
  define bd where "bd = bitlen d"
  define k where "k = bn - bd"
  have bn: "1 \<le> bn" and bd: "1 \<le> bd" using assms by (simp_all add: bn_def bd_def bitlen_pos)
  have n_lo: "(2::real) powi (bn - 1) \<le> real_of_int n"
    using real_pow2_le [OF bitlen_lower [OF assms(1)]] bn by (simp add: bn_def powi_nat_int)
  have n_hi: "real_of_int n < 2 powi bn"
    using real_pow2_less [OF bitlen_upper [OF assms(1)]] bn by (simp add: bn_def powi_nat_int)
  have d_lo: "(2::real) powi (bd - 1) \<le> real_of_int d"
    using real_pow2_le [OF bitlen_lower [OF assms(2)]] bd by (simp add: bd_def powi_nat_int)
  have d_hi: "real_of_int d < 2 powi bd"
    using real_pow2_less [OF bitlen_upper [OF assms(2)]] bd by (simp add: bd_def powi_nat_int)
  have test: "(if 0 \<le> k then d * 2 ^ nat k \<le> n else d \<le> n * 2 ^ nat (- k)) =
              (real_of_int d * 2 powi k \<le> real_of_int n)"
  proof (cases "0 \<le> k")
    case True
    have "(d * 2 ^ nat k \<le> n) = (real_of_int (d * 2 ^ nat k) \<le> real_of_int n)"
      by (simp only: of_int_le_iff)
    also have "real_of_int (d * 2 ^ nat k) = real_of_int d * 2 ^ nat k" by simp
    finally show ?thesis using True by (simp add: powi_nat_int)
  next
    case False
    have "(d \<le> n * 2 ^ nat (- k)) = (real_of_int d \<le> real_of_int (n * 2 ^ nat (- k)))"
      by (simp only: of_int_le_iff)
    also have "real_of_int (n * 2 ^ nat (- k)) = real_of_int n * 2 ^ nat (- k)" by simp
    finally have "(d \<le> n * 2 ^ nat (- k)) = (real_of_int d \<le> real_of_int n * 2 ^ nat (- k))" .
    also have "\<dots> = (real_of_int d * 2 powi k \<le> real_of_int n)"
      using False by (simp add: powi_neg_int field_simps)
    finally show ?thesis using False by simp
  qed
  have fl: "floor_log2 n d = (if real_of_int d * 2 powi k \<le> real_of_int n then k else k - 1)"
    unfolding floor_log2_def Let_def bn_def [symmetric] bd_def [symmetric] k_def [symmetric]
    using test by simp
  have up: "real_of_int n < real_of_int d * 2 powi (k + 1)"
  proof -
    have "real_of_int n < 2 powi bn" by (rule n_hi)
    also have "\<dots> = 2 powi (bd - 1) * 2 powi (k + 1)"
      by (simp add: k_def power_int_add [symmetric])
    also have "\<dots> \<le> real_of_int d * 2 powi (k + 1)"
      using d_lo by (simp add: mult_right_mono)
    finally show ?thesis .
  qed
  have lo: "real_of_int d * 2 powi (k - 1) \<le> real_of_int n"
  proof -
    have "real_of_int d * 2 powi (k - 1) \<le> 2 powi bd * 2 powi (k - 1)"
      using d_hi by (simp add: mult_right_mono)
    also have "\<dots> = 2 powi (bn - 1)"
      by (simp add: k_def power_int_add [symmetric])
    also have "\<dots> \<le> real_of_int n" by (rule n_lo)
    finally show ?thesis .
  qed
  show "real_of_int d * 2 powi (floor_log2 n d) \<le> real_of_int n"
    using fl lo by (simp split: if_splits)
  show "real_of_int n < real_of_int d * 2 powi (floor_log2 n d + 1)"
    using fl up by (auto split: if_splits)
qed

lemma round_half_even_bounds:
  assumes "0 < d"
  shows "2 * real_of_int n - real_of_int d \<le> 2 * real_of_int d * real_of_int (round_half_even n d)"
    and "2 * real_of_int d * real_of_int (round_half_even n d) \<le> 2 * real_of_int n + real_of_int d"
proof -
  define q where "q = n div d"
  define r where "r = n mod d"
  have n: "n = d * q + r" by (simp add: q_def r_def)
  have r: "0 \<le> r" "r < d" using assms by (simp_all add: r_def)
  have rn: "real_of_int n = real_of_int d * real_of_int q + real_of_int r"
    by (subst n) simp
  have c: "round_half_even n d = q \<and> 2 * r \<le> d \<or> round_half_even n d = q + 1 \<and> d \<le> 2 * r"
    unfolding round_half_even_def Let_def q_def [symmetric] r_def [symmetric] by auto
  have rr: "0 \<le> real_of_int r" "real_of_int r < real_of_int d" using r by simp_all
  from c show "2 * real_of_int n - real_of_int d \<le> 2 * real_of_int d * real_of_int (round_half_even n d)"
  proof
    assume a: "round_half_even n d = q \<and> 2 * r \<le> d"
    then have "real_of_int (2 * r) \<le> real_of_int d" by (simp only: of_int_le_iff)
    then have "2 * real_of_int r \<le> real_of_int d" by simp
    with a rn show ?thesis by (simp add: algebra_simps)
  next
    assume a: "round_half_even n d = q + 1 \<and> d \<le> 2 * r"
    with rn rr show ?thesis by (simp add: algebra_simps)
  qed
  from c show "2 * real_of_int d * real_of_int (round_half_even n d) \<le> 2 * real_of_int n + real_of_int d"
  proof
    assume a: "round_half_even n d = q \<and> 2 * r \<le> d"
    with rn rr assms show ?thesis by (simp add: algebra_simps)
  next
    assume a: "round_half_even n d = q + 1 \<and> d \<le> 2 * r"
    then have "real_of_int d \<le> real_of_int (2 * r)" by (simp only: of_int_le_iff)
    then have "real_of_int d \<le> 2 * real_of_int r" by simp
    with a rn show ?thesis by (simp add: algebra_simps)
  qed
qed

lemma float_den_pos: "0 < float_den x"
  by (cases x) (simp add: float_den_def)

lemma float_num_den: "real_of_int (float_num x) / real_of_int (float_den x) = float_val x"
proof (cases x)
  case (Pair m e)
  show ?thesis
  proof (cases "0 \<le> e")
    case True
    with Pair show ?thesis by (simp add: float_num_def float_den_def float_val_def powi_nat_int)
  next
    case False
    with Pair show ?thesis by (simp add: float_num_def float_den_def float_val_def powi_neg_int)
  qed
qed

lemma scaled_bounds:
  fixes D N m xs :: real
  assumes D: "0 < D" and lo: "2 * N - D \<le> 2 * D * m" and hi: "2 * D * m \<le> 2 * N + D"
    and N: "N = xs * D"
  shows "2 * xs - 1 \<le> 2 * m \<and> 2 * m \<le> 2 * xs + 1"
proof
  have "D * (2 * xs - 1) \<le> D * (2 * m)" using lo N by (simp add: algebra_simps)
  then show "2 * xs - 1 \<le> 2 * m" using D by (simp only: mult_le_cancel_left_pos)
  have "D * (2 * m) \<le> D * (2 * xs + 1)" using hi N by (simp add: algebra_simps)
  then show "2 * m \<le> 2 * xs + 1" using D by (simp only: mult_le_cancel_left_pos)
qed

lemma round_ratio_pos:
  assumes n: "0 < n" and d: "0 < d" and small: "real_of_int n < real_of_int d * 2 ^ 1023"
  shows "\<exists>x. round_ratio n d = Some x \<and> 0 \<le> fst x \<and>
           float_val x \<le> 2 * (real_of_int n / real_of_int d) + 1 \<and>
           (2 powi (- 1022) \<le> real_of_int n / real_of_int d \<longrightarrow>
              real_of_int n / real_of_int d \<le> 2 * float_val x)"
proof -
  define k where "k = floor_log2 n d"
  define e where "e = max (k - 52) (- 1074)"
  define m where "m = (if 0 \<le> e then round_half_even n (d * 2 ^ nat e)
                       else round_half_even (n * 2 ^ nat (- e)) d)"
  define P where "P = (2::real) powi e"
  define xs where "xs = real_of_int n / (real_of_int d * P)"
  have P: "0 < P" by (simp add: P_def)
  have rn: "0 < real_of_int n" and rd: "0 < real_of_int d" using n d by simp_all
  have xs_pos: "0 < xs" using rn rd P by (simp add: xs_def)
  have k_lo: "real_of_int d * 2 powi k \<le> real_of_int n"
    and k_hi: "real_of_int n < real_of_int d * 2 powi (k + 1)"
    using floor_log2_bounds [OF n d] by (simp_all add: k_def)
  have m_bounds: "2 * xs - 1 \<le> 2 * real_of_int m \<and> 2 * real_of_int m \<le> 2 * xs + 1"
  proof (cases "0 \<le> e")
    case True
    define D where "D = d * 2 ^ nat e"
    have D: "0 < D" using d by (simp add: D_def)
    have rD: "real_of_int D = real_of_int d * P" using True by (simp add: D_def P_def powi_nat_int)
    have mm: "m = round_half_even n D" using True by (simp add: m_def D_def)
    from round_half_even_bounds [OF D, of n]
    have "2 * real_of_int n - real_of_int D \<le> 2 * real_of_int D * real_of_int m"
      and "2 * real_of_int D * real_of_int m \<le> 2 * real_of_int n + real_of_int D"
      by (simp_all add: mm)
    moreover have "real_of_int n = xs * real_of_int D" using rd P by (simp add: xs_def rD)
    moreover have "0 < real_of_int D" using D by simp
    ultimately show ?thesis by (rule scaled_bounds [rotated])
  next
    case False
    define N where "N = n * 2 ^ nat (- e)"
    have rN: "real_of_int N = real_of_int n / P" using False by (simp add: N_def P_def powi_neg_int)
    have mm: "m = round_half_even N d" using False by (simp add: m_def N_def)
    from round_half_even_bounds [OF d, of N]
    have "2 * real_of_int N - real_of_int d \<le> 2 * real_of_int d * real_of_int m"
      and "2 * real_of_int d * real_of_int m \<le> 2 * real_of_int N + real_of_int d"
      by (simp_all add: mm)
    moreover have "real_of_int N = xs * real_of_int d" using rd P by (simp add: xs_def rN)
    moreover note rd
    ultimately show ?thesis by (rule scaled_bounds [rotated])
  qed
  have xsP: "xs * P = real_of_int n / real_of_int d" using P by (simp add: xs_def)
  have m_nonneg: "0 \<le> m"
  proof -
    have "real_of_int (- 1) < real_of_int (2 * m)" using m_bounds xs_pos by simp
    then have "- 1 < 2 * m" by (simp only: of_int_less_iff)
    then show ?thesis by simp
  qed
  have e_ge: "k - 52 \<le> e" "- 1074 \<le> e" by (simp_all add: e_def)
  have P53: "(2::real) powi (e + 53) = P * 2 ^ 53" by (simp add: P_def power_int_add)
  have xs_lt: "xs < 2 ^ 53"
  proof -
    have "(2::real) powi (k + 1) \<le> 2 powi (e + 53)"
      using e_ge(1) by (intro power_int_increasing) simp_all
    then have "real_of_int d * 2 powi (k + 1) \<le> real_of_int d * (P * 2 ^ 53)"
      using rd by (simp add: P53)
    with k_hi have "real_of_int n < 2 ^ 53 * (real_of_int d * P)" by (simp add: mult.commute mult.left_commute)
    then show ?thesis using rd P by (simp add: xs_def pos_divide_less_eq)
  qed
  have m_le: "m \<le> 2 ^ 53"
  proof -
    have "real_of_int (2 * m) < real_of_int (2 * 2 ^ 53 + 1)" using m_bounds xs_lt by simp
    then have "2 * m < 2 * 2 ^ 53 + 1" by (simp only: of_int_less_iff)
    then show ?thesis by simp
  qed
  have not_none: "\<not> (0 \<le> e \<and> 2 ^ 1024 \<le> m * 2 ^ nat e)"
  proof
    assume a: "0 \<le> e \<and> 2 ^ 1024 \<le> m * 2 ^ nat e"
    have "m * 2 ^ nat e \<le> 2 ^ 53 * 2 ^ nat e" using m_le by (simp add: mult_right_mono)
    also have "\<dots> = (2::int) ^ (53 + nat e)" by (simp add: power_add)
    finally have "m * 2 ^ nat e \<le> (2::int) ^ (53 + nat e)" .
    moreover from a have "(2::int) ^ 1024 \<le> m * 2 ^ nat e" by (rule conjunct2)
    ultimately have le: "(2::int) ^ 1024 \<le> 2 ^ (53 + nat e)" by (rule order_trans [rotated])
    have "(1::int) < 2" by simp
    from power_le_imp_le_exp [OF this le] have "1024 \<le> 53 + nat e" .
    then have "971 \<le> e" by simp
    with e_def have "1023 \<le> k" by simp
    then have "(2::real) powi 1023 \<le> 2 powi k" by (intro power_int_increasing) simp_all
    then have "real_of_int d * 2 ^ 1023 \<le> real_of_int d * 2 powi k" using rd by simp
    with k_lo small show False by simp
  qed
  have rr: "round_ratio n d = Some (m, e)"
    using n not_none
    by (auto simp add: round_ratio_def Let_def m_def e_def k_def simp del: power_numeral)
  have val: "float_val (m, e) = real_of_int m * P" by (simp add: float_val_def P_def)
  have ratio_nonneg: "0 \<le> real_of_int n / real_of_int d" using rn rd by simp
  have P_le: "P \<le> real_of_int n / real_of_int d + 1"
  proof (cases "- 1074 \<le> k - 52")
    case True
    then have "e = k - 52" by (simp add: e_def)
    then have "P \<le> 2 powi k" unfolding P_def by (intro power_int_increasing) simp_all
    also have "\<dots> \<le> real_of_int n / real_of_int d"
      using k_lo rd by (simp add: pos_le_divide_eq mult.commute)
    finally show ?thesis by simp
  next
    case False
    then have "e = - 1074" by (simp add: e_def)
    then have "P \<le> 2 powi 0" unfolding P_def by (intro power_int_increasing) simp_all
    with ratio_nonneg show ?thesis by simp
  qed
  have upper: "float_val (m, e) \<le> 2 * (real_of_int n / real_of_int d) + 1"
  proof -
    have "2 * (real_of_int m * P) \<le> (2 * xs + 1) * P"
      using m_bounds P by (simp add: mult_right_mono mult.assoc [symmetric])
    also have "\<dots> = 2 * (real_of_int n / real_of_int d) + P"
      by (simp add: distrib_right mult.assoc xsP)
    finally show ?thesis using P_le ratio_nonneg by (simp add: val)
  qed
  have lower: "real_of_int n / real_of_int d \<le> 2 * float_val (m, e)"
    if normal: "2 powi (- 1022) \<le> real_of_int n / real_of_int d"
  proof -
    have k_ge: "- 1022 \<le> k"
    proof (rule ccontr)
      assume "\<not> - 1022 \<le> k"
      then have "k + 1 \<le> - 1022" by simp
      then have "(2::real) powi (k + 1) \<le> 2 powi (- 1022)" by (intro power_int_increasing) simp_all
      then have "real_of_int d * 2 powi (k + 1) \<le> real_of_int d * 2 powi (- 1022)"
        using rd by simp
      with k_hi have "real_of_int n < 2 powi (- 1022) * real_of_int d" by (simp add: mult.commute)
      then have "real_of_int n / real_of_int d < 2 powi (- 1022)"
        using rd by (simp add: pos_divide_less_eq)
      with normal show False by simp
    qed
    then have ek: "e = k - 52" by (simp add: e_def)
    have "(2::real) powi k = P * 2 ^ 52" by (simp add: P_def ek power_int_diff)
    with k_lo have "2 ^ 52 * (real_of_int d * P) \<le> real_of_int n"
      by (simp add: mult.commute mult.left_commute)
    then have "2 ^ 52 \<le> xs" using rd P by (simp add: xs_def pos_le_divide_eq)
    then have "1 \<le> xs" by simp
    with m_bounds have "xs \<le> 2 * real_of_int m" by simp
    then have "xs * P \<le> 2 * real_of_int m * P" using P by (simp only: mult_le_cancel_right_pos)
    then show ?thesis by (simp add: val xsP mult.assoc)
  qed
  from rr m_nonneg upper lower show ?thesis by auto
qed

lemma float_num_pos: "0 < float_val x \<Longrightarrow> 0 < float_num x"
proof -
  assume "0 < float_val x"
  then have "0 < real_of_int (float_num x) / real_of_int (float_den x)"
    by (simp only: float_num_den)
  moreover have "0 < real_of_int (float_den x)" using float_den_pos [of x] by simp
  ultimately have "0 < real_of_int (float_num x)" by (simp add: zero_less_divide_iff)
  then show ?thesis by simp
qed

lemma float_val_as_ratio:
  "float_val x * real_of_int (float_den x) = real_of_int (float_num x)"
  using float_num_den [of x] float_den_pos [of x] by (simp add: field_simps)

lemma int_true_div_bounds:
  assumes "0 < a" and "0 < b" and "real_of_int a < real_of_int b * 2 ^ 1023"
    and "2 powi (- 1022) \<le> real_of_int a / real_of_int b"
  shows "\<exists>x. int_true_div a b = Inr x \<and> real_of_int a / real_of_int b \<le> 2 * float_val x \<and>
           float_val x \<le> 2 * (real_of_int a / real_of_int b) + 1"
proof -
  from round_ratio_pos [OF assms(1,2,3)] assms(4) obtain x
    where "round_ratio a b = Some x" "real_of_int a / real_of_int b \<le> 2 * float_val x"
      "float_val x \<le> 2 * (real_of_int a / real_of_int b) + 1"
    by blast
  with assms(2) show ?thesis by (auto simp: int_true_div_def)
qed

lemma float_of_int_bounds:
  assumes "0 < a" and "real_of_int a < 2 ^ 1023"
  shows "\<exists>x. float_of_int a = Inr x \<and> real_of_int a \<le> 2 * float_val x \<and>
           float_val x \<le> 2 * real_of_int a + 1"
proof -
  have s: "real_of_int a < real_of_int 1 * 2 ^ 1023" using assms(2) by simp
  have "(2::real) powi (- 1022) \<le> 2 powi 0" by (intro power_int_increasing) simp_all
  also have "\<dots> \<le> real_of_int a" using assms(1) by simp
  finally have n: "2 powi (- 1022) \<le> real_of_int a / real_of_int 1" by simp
  from round_ratio_pos [OF assms(1) zero_less_one s] n obtain x
    where "round_ratio a 1 = Some x" "real_of_int a / real_of_int 1 \<le> 2 * float_val x"
      "float_val x \<le> 2 * (real_of_int a / real_of_int 1) + 1"
    by blast
  then show ?thesis by (auto simp: float_of_int_def)
qed

lemma float_mul_defined:
  assumes x: "0 < float_val x" and y: "0 < float_val y"
    and small: "float_val x * float_val y < 2 ^ 1023"
  shows "\<exists>z. float_mul x y = Inr z"
proof -
  let ?n = "float_num x * float_num y"
  let ?d = "float_den x * float_den y"
  have n: "0 < ?n" using float_num_pos [OF x] float_num_pos [OF y] by simp
  have d: "0 < ?d" using float_den_pos [of x] float_den_pos [of y] by simp
  have "real_of_int ?n = (float_val x * float_val y) * real_of_int ?d"
    by (simp add: float_val_as_ratio [symmetric] mult_ac)
  also have "\<dots> < 2 ^ 1023 * real_of_int ?d"
    using small d by (simp only: mult_less_cancel_right_pos of_int_0_less_iff)
  finally have "real_of_int ?n < real_of_int ?d * 2 ^ 1023" by (simp add: mult.commute)
  from round_ratio_pos [OF n d this] show ?thesis by (auto simp: float_mul_def)
qed

lemma float_div_defined:
  assumes x: "0 < float_val x" and y: "0 < float_val y"
    and small: "float_val x < float_val y * 2 ^ 1023"
  shows "\<exists>z. float_div x y = Inr z"
proof -
  let ?n = "float_num x * float_den y"
  let ?d = "float_den x * float_num y"
  have ny: "0 < float_num y" by (rule float_num_pos [OF y])
  have n: "0 < ?n" using float_num_pos [OF x] float_den_pos [of y] by simp
  have d: "0 < ?d" using float_den_pos [of x] ny by simp
  have dd: "0 < real_of_int (float_den x) * real_of_int (float_den y)"
    using float_den_pos [of x] float_den_pos [of y] by simp
  have "real_of_int ?n = float_val x * (real_of_int (float_den x) * real_of_int (float_den y))"
    by (simp add: float_val_as_ratio [symmetric] mult_ac)
  also have "\<dots> < (float_val y * 2 ^ 1023) * (real_of_int (float_den x) * real_of_int (float_den y))"
    using small dd by (simp only: mult_less_cancel_right_pos)
  also have "\<dots> = real_of_int ?d * 2 ^ 1023"
    by (simp add: float_val_as_ratio [symmetric] mult_ac)
  finally have "real_of_int ?n < real_of_int ?d * 2 ^ 1023" .
  from round_ratio_pos [OF n d this] ny show ?thesis
    by (auto simp: float_div_def)
qed

lemma new_size_defined:
  assumes iw: "0 < iw" and ih: "0 < ih"
    and w: "int iw < width" and h: "int ih < height"
    and wb: "width < 2 ^ 500" and hb: "height < 2 ^ 500"
  shows "\<exists>new_width new_height. new_size iw ih width height = Inr (new_width, new_height)"
proof -
  define a where "a = int iw"
  define b where "b = int ih"
  define c where "c = (2::real) ^ 500"
  define K where "K = (2::real) ^ 1023"
  have a: "0 < a" and b: "0 < b" using iw ih by (simp_all add: a_def b_def)
  have wpos: "0 < width" and hpos: "0 < height" using a b w h by (simp_all add: a_def b_def)
  have ra: "1 \<le> real_of_int a" and rb: "1 \<le> real_of_int b"
    using iw ih by (simp_all add: a_def b_def)
  have rwid: "1 \<le> real_of_int width" and rhei: "1 \<le> real_of_int height"
    using wpos hpos by simp_all
  have c1: "1 \<le> c" by (simp add: c_def)
  have cpos: "0 < c" using c1 by simp
  have Kpos: "0 < K" by (simp add: K_def)
  have n1: "6 * c * c < K" by (simp add: c_def K_def)
  have n2: "9 * c * c < K" by (simp add: c_def K_def)
  have cK: "c \<le> K" by (simp add: c_def K_def)
  have wc: "real_of_int width < c" using real_pow2_less [OF wb] by (simp add: c_def)
  have hc: "real_of_int height < c" using real_pow2_less [OF hb] by (simp add: c_def)
  have "real_of_int a < real_of_int width" using w by (simp only: a_def of_int_less_iff)
  with wc have ac: "real_of_int a < c" by simp
  have "real_of_int b < real_of_int height" using h by (simp only: b_def of_int_less_iff)
  with hc have bc: "real_of_int b < c" by simp
  have below: "x < c \<Longrightarrow> 1 \<le> y \<Longrightarrow> x < y * K" for x y :: real
  proof -
    assume x: "x < c" and y: "1 \<le> y"
    have "K \<le> y * K" using y Kpos by (simp add: mult_le_cancel_right1)
    with x cK show ?thesis by simp
  qed
  have tiny: "(2::real) powi (- 1022) \<le> 1 / c"
  proof -
    have "(2::real) powi (- 1022) \<le> 2 powi (- 500)" by (intro power_int_increasing) simp_all
    also have "\<dots> = 1 / c" using powi_neg_int [of "- 500"] by (simp add: c_def)
    finally show ?thesis .
  qed
  have ab_lo: "1 / c \<le> real_of_int a / real_of_int b"
    using ra bc b by (intro frac_le) simp_all
  have ab_hi: "real_of_int a / real_of_int b \<le> c"
  proof -
    have "real_of_int a * 1 \<le> real_of_int a * real_of_int b"
      using ra rb by (intro mult_left_mono) simp_all
    then have "real_of_int a / real_of_int b \<le> real_of_int a"
      using b by (simp add: pos_divide_le_eq)
    with ac show ?thesis by simp
  qed
  from int_true_div_bounds [OF a b below [OF ac rb, unfolded K_def] order_trans [OF tiny ab_lo]]
  obtain r where r: "int_true_div a b = Inr r"
    and r_lo2: "real_of_int a / real_of_int b \<le> 2 * float_val r"
    and r_hi2: "float_val r \<le> 2 * (real_of_int a / real_of_int b) + 1"
    by blast
  have r_up: "float_val r \<le> 3 * c" using r_hi2 ab_hi c1 by simp
  have r_lo: "1 / (2 * c) \<le> float_val r"
  proof -
    have "1 / c \<le> 2 * float_val r" using ab_lo r_lo2 by simp
    then have "(1 / c) / 2 \<le> float_val r" by simp
    then show ?thesis by simp
  qed
  have r_pos: "0 < float_val r"
  proof -
    have "0 < 1 / (2 * c)" using cpos by simp
    then show ?thesis using r_lo by (rule less_le_trans)
  qed
  from round_ratio_pos [OF wpos hpos below [OF wc rhei, unfolded K_def]]
  obtain t where "round_ratio width height = Some t" by blast
  then have t: "int_true_div width height = Inr t" using hpos by (simp add: int_true_div_def)
  have wK: "real_of_int width < 2 ^ 1023" using wc cK by (simp add: K_def)
  have hK: "real_of_int height < 2 ^ 1023" using hc cK by (simp add: K_def)
  from float_of_int_bounds [OF wpos wK]
  obtain xw where xw: "float_of_int width = Inr xw"
    and xw_lo: "real_of_int width \<le> 2 * float_val xw"
    and xw_hi: "float_val xw \<le> 2 * real_of_int width + 1"
    by blast
  from float_of_int_bounds [OF hpos hK]
  obtain xh where xh: "float_of_int height = Inr xh"
    and xh_lo: "real_of_int height \<le> 2 * float_val xh"
    and xh_hi: "float_val xh \<le> 2 * real_of_int height + 1"
    by blast
  have xw_pos: "0 < float_val xw" using xw_lo rwid by simp
  have xh_pos: "0 < float_val xh" using xh_lo rhei by simp
  have xw_up: "float_val xw \<le> 3 * c" using xw_hi wc c1 by simp
  have xh_up: "float_val xh \<le> 3 * c" using xh_hi hc c1 by simp
  have div_ok: "float_val xw < float_val r * 2 ^ 1023"
  proof -
    have "3 * c * (2 * c) < K" using n1 by (simp add: mult_ac)
    then have "3 * c < K / (2 * c)" using cpos by (simp add: pos_less_divide_eq)
    also have "\<dots> = (1 / (2 * c)) * K" by simp
    also have "\<dots> \<le> float_val r * K" using r_lo Kpos by (intro mult_right_mono) simp_all
    finally show ?thesis using xw_up by (simp add: K_def)
  qed
  have mul_ok: "float_val xh * float_val r < 2 ^ 1023"
  proof -
    have "float_val xh * float_val r \<le> (3 * c) * (3 * c)"
      using xh_up r_up xh_pos r_pos cpos by (intro mult_mono) simp_all
    also have "\<dots> = 9 * c * c" by simp
    also have "\<dots> < K" by (rule n2)
    finally show ?thesis by (simp add: K_def)
  qed
  from float_div_defined [OF xw_pos r_pos div_ok] obtain z1 where z1: "float_div xw r = Inr z1"
    by blast
  from float_mul_defined [OF xh_pos r_pos mul_ok] obtain z2 where z2: "float_mul xh r = Inr z2"
    by blast
  show ?thesis
    using r t xw xh z1 z2
    by (simp add: new_size_def int_div_float_def int_mul_float_def a_def b_def)
qed

text \<open>
  C10. When the source is smaller than the target box in both dimensions, the size that
  \<open>new_size\<close> computes has one dimension equal to its target bound, which exceeds the
  source dimension: the resize enlarges. For a source of positive dimensions and a target
  below \<open>2 ^ 500\<close> pixels the computation does return a size.
\<close>

theorem resize_enlarges_smaller_source:
  assumes "int iw < width" and "int ih < height"
  shows "(\<forall>new_width new_height.
            new_size iw ih width height = Inr (new_width, new_height) \<longrightarrow>
            (new_width = width \<and> int iw < new_width) \<or>
            (new_height = height \<and> int ih < new_height)) \<and>
         (0 < iw \<and> 0 < ih \<and> width < 2 ^ 500 \<and> height < 2 ^ 500 \<longrightarrow>
            (\<exists>new_width new_height. new_size iw ih width height = Inr (new_width, new_height)))"
proof (intro conjI allI impI)
  fix new_width new_height
  assume "new_size iw ih width height = Inr (new_width, new_height)"
  with assms show "(new_width = width \<and> int iw < new_width) \<or>
                   (new_height = height \<and> int ih < new_height)"
    by (auto simp: new_size_def split: sum.splits if_splits)
next
  assume "0 < iw \<and> 0 < ih \<and> width < 2 ^ 500 \<and> height < 2 ^ 500"
  with assms show "\<exists>new_width new_height. new_size iw ih width height = Inr (new_width, new_height)"
    by (intro new_size_defined) blast+
qed

theorem resize_enlarges_smaller_source_witness:
  "\<exists>new_width new_height.
     new_size 640 480 800 600 = Inr (new_width, new_height) \<and>
     ((new_width = 800 \<and> int 640 < new_width) \<or> (new_height = 600 \<and> int 480 < new_height))"
proof -
  have s: "int 640 < 800" "int 480 < 600" by simp_all
  have b: "0 < (640::nat) \<and> 0 < (480::nat) \<and> (800::int) < 2 ^ 500 \<and> (600::int) < 2 ^ 500"
    by simp
  from resize_enlarges_smaller_source [OF s] b show ?thesis by blast
qed

text \<open>
  C2. The scaled dimension is computed in binary64: for a source of 1100 by 1500 pixels and
  the target 800x600 the code takes the second branch and computes the width
  \<^verbatim>\<open>int(600 * (1100 / 1500))\<close>, which is 439, where the exact quotient
  \<open>600 * 1100 / 1500\<close> is 440; for a source of 1 by 49 pixels and the target 10x49 it
  computes the width 0, where the exact quotient is 1.
\<close>

theorem aspect_fit_rounds_below_floor:
  "new_size 1100 1500 800 600 = Inr (439, 600) \<and> (600 * 1100) div 1500 = (440::int) \<and>
   new_size 1 49 10 49 = Inr (0, 49) \<and> (49 * 1) div 49 = (1::int)"
  by code_simp

section \<open>What a stage leaves of the result\<close>

lemma handler_fields:
  "status (fst (handler e st)) = JobFailed"
  "errors (fst (handler e st)) = errors (fst st) @ [e]"
  "snd (handler e st) = snd st"
  "res_job_id (fst (handler e st)) = res_job_id (fst st)"
  "res_image_id (fst (handler e st)) = res_image_id (fst st)"
  "out_original (fst (handler e st)) = out_original (fst st)"
  "out_thumbnail (fst (handler e st)) = out_thumbnail (fst st)"
  "out_resized (fst (handler e st)) = out_resized (fst st)"
  "meta_image (fst (handler e st)) = meta_image (fst st)"
  by (cases st; simp add: handler_def)+

lemma upload_to_storage_cases:
  "upload_to_storage env d p w = (x, w') \<Longrightarrow>
     (x = Inl (UploadFailed p) \<and> (w' = w \<or> w' = w @ [p])) \<or>
     (x = Inr (''gs://'' @ bucket_name env @ ''/'' @ p) \<and> w' = w @ [p] \<and> bucket_put env p d = Stored)"
  by (auto simp: upload_to_storage_def split: put_outcome.splits)

lemma thumbnail_step_Inl:
  assumes "thumbnail_step env j iid d st = Inl st'"
  shows "status (fst st') = JobFailed \<and> (\<exists>e. errors (fst st') = errors (fst st) @ [e]) \<and>
         res_job_id (fst st') = res_job_id (fst st) \<and> res_image_id (fst st') = res_image_id (fst st) \<and>
         out_thumbnail (fst st') = out_thumbnail (fst st) \<and> out_resized (fst st') = out_resized (fst st)"
  using assms
  by (auto simp: thumbnail_step_def handler_fields split: if_splits sum.splits prod.splits)

lemma thumbnail_step_Inr:
  assumes "thumbnail_step env j iid d st = Inr st'"
  shows "status (fst st') = status (fst st) \<and> errors (fst st') = errors (fst st) \<and>
         res_job_id (fst st') = res_job_id (fst st) \<and> res_image_id (fst st') = res_image_id (fst st) \<and>
         out_resized (fst st') = out_resized (fst st)"
  using assms
  by (auto simp: thumbnail_step_def split: if_splits sum.splits prod.splits)

lemma upload_resized_Inl:
  "upload_resized env iid items st = Inl st' \<Longrightarrow>
     status (fst st') = JobFailed \<and> (\<exists>e. errors (fst st') = errors (fst st) @ [e]) \<and>
     res_job_id (fst st') = res_job_id (fst st) \<and> res_image_id (fst st') = res_image_id (fst st)"
proof (induction items arbitrary: st)
  case Nil
  then show ?case by simp
next
  case (Cons item items)
  obtain k v where item: "item = (k, v)" by (cases item)
  show ?case
  proof (cases "upload_to_storage env v (resized_path iid k) (snd st)")
    case (Pair x w)
    show ?thesis
    proof (cases x)
      case (Inl e)
      with Cons.prems item Pair show ?thesis by (auto simp: handler_fields)
    next
      case (Inr u)
      with Cons.prems item Pair
      have "upload_resized env iid items
              ((fst st)\<lparr>out_resized := map_option (AList.update k u) (out_resized (fst st))\<rparr>, w) = Inl st'"
        by simp
      from Cons.IH [OF this] show ?thesis by simp
    qed
  qed
qed

lemma upload_resized_Inr:
  "upload_resized env iid items st = Inr st' \<Longrightarrow>
     status (fst st') = status (fst st) \<and> errors (fst st') = errors (fst st) \<and>
     res_job_id (fst st') = res_job_id (fst st) \<and> res_image_id (fst st') = res_image_id (fst st)"
proof (induction items arbitrary: st)
  case Nil
  then show ?case by simp
next
  case (Cons item items)
  obtain k v where item: "item = (k, v)" by (cases item)
  show ?case
  proof (cases "upload_to_storage env v (resized_path iid k) (snd st)")
    case (Pair x w)
    show ?thesis
    proof (cases x)
      case (Inl e)
      with Cons.prems item Pair show ?thesis by auto
    next
      case (Inr u)
      with Cons.prems item Pair
      have "upload_resized env iid items
              ((fst st)\<lparr>out_resized := map_option (AList.update k u) (out_resized (fst st))\<rparr>, w) = Inr st'"
        by simp
      from Cons.IH [OF this] show ?thesis by simp
    qed
  qed
qed

lemma resize_step_Inl:
  "resize_step env j iid d st = Inl st' \<Longrightarrow>
     status (fst st') = JobFailed \<and> (\<exists>e. errors (fst st') = errors (fst st) @ [e]) \<and>
     res_job_id (fst st') = res_job_id (fst st) \<and> res_image_id (fst st') = res_image_id (fst st)"
  by (auto simp: resize_step_def split: if_splits dest!: upload_resized_Inl)

lemma resize_step_Inr:
  "resize_step env j iid d st = Inr st' \<Longrightarrow>
     status (fst st') = status (fst st) \<and> errors (fst st') = errors (fst st) \<and>
     res_job_id (fst st') = res_job_id (fst st) \<and> res_image_id (fst st') = res_image_id (fst st)"
  by (auto simp: resize_step_def split: if_splits dest!: upload_resized_Inr)

lemma run_stages_result:
  "res_job_id (fst (run_stages env j jid iid u)) = jid \<and>
   res_image_id (fst (run_stages env j jid iid u)) = iid \<and>
   ((status (fst (run_stages env j jid iid u)) = Completed \<and> errors (fst (run_stages env j jid iid u)) = []) \<or>
    (status (fst (run_stages env j jid iid u)) = JobFailed \<and> (\<exists>e. errors (fst (run_stages env j jid iid u)) = [e])))"
  unfolding run_stages_def Let_def
  by (auto simp: handler_fields split: sum.splits prod.splits
      dest!: thumbnail_step_Inl thumbnail_step_Inr resize_step_Inl resize_step_Inr)

section \<open>The thumbnail stage\<close>

text \<open>
  C1, as stated, fails: with a thumbnail that cannot be made the sample job ends failed,
  not completed, and the resize stage has not run (no resized output, no resized object
  in the bucket).
\<close>

theorem thumbnail_failure_counterexample:
  "get_create_thumbnail sample_job \<and>
   create_thumbnail no_thumbnail_env ''abc'' = Inl ThumbnailFailed \<and>
   (case process_image_job no_thumbnail_env sample_job of
      Inl exn \<Rightarrow> False
    | Inr (r, written) \<Rightarrow>
        status r = JobFailed \<and> errors r = [ThumbnailFailed] \<and> out_resized r = None \<and>
        written = [''original/img1/img1_original.jpg''])"
  by code_simp

text \<open>
  C1, amended. When the thumbnail is asked for and the thumbnail stage fails (making it
  raises, or its upload raises), that error is the one entry of the error list, the job
  ends failed, and the resize stage does not run: the outputs hold the original only and
  no resized object is written.
\<close>

theorem thumbnail_failure_fails_job:
  assumes "job_id j = Some jid" and "image_id j = Some iid" and "url j = Some u"
    and "download_image env u = Inr (image_data, dm)"
    and "bucket_put env (original_path iid) image_data = Stored"
    and "get_create_thumbnail j"
    and "create_thumbnail env image_data = Inl e \<or>
         (\<exists>t. create_thumbnail env image_data = Inr t \<and>
              bucket_put env (thumbnail_path iid) t \<noteq> Stored \<and>
              e = UploadFailed (thumbnail_path iid))"
  shows "\<exists>r written. process_image_job env j = Inr (r, written) \<and>
           status r = JobFailed \<and> errors r = [e] \<and>
           out_original r = Some (''gs://'' @ bucket_name env @ ''/'' @ original_path iid) \<and>
           out_thumbnail r = None \<and> out_resized r = None \<and>
           written =
             (if \<exists>t. create_thumbnail env image_data = Inr t \<and>
                     bucket_put env (thumbnail_path iid) t = StoredNotPublic
              then [original_path iid, thumbnail_path iid] else [original_path iid])"
  using assms
  by (auto simp: process_image_job_def run_stages_def Let_def upload_to_storage_def
      thumbnail_step_def handler_def split: put_outcome.splits)

theorem thumbnail_failure_fails_job_witness:
  "\<exists>r written. process_image_job no_thumbnail_env sample_job = Inr (r, written) \<and>
     status r = JobFailed \<and> errors r = [ThumbnailFailed] \<and>
     out_original r = Some ''gs://bucket/original/img1/img1_original.jpg'' \<and>
     out_thumbnail r = None \<and> out_resized r = None \<and>
     written = [''original/img1/img1_original.jpg'']"
proof -
  let ?dm = "\<lparr>dl_original_url = ''http://host/a.jpg'', dl_content_type = ''image/jpeg'',
              dl_content_length = 3, dl_http_status = 200, dl_content_hash = ''digest''\<rparr>"
  have dl: "download_image no_thumbnail_env ''http://host/a.jpg'' = Inr (''abc'', ?dm)"
    by code_simp
  have put: "bucket_put no_thumbnail_env (original_path ''img1'') ''abc'' = Stored"
    by code_simp
  have opt: "get_create_thumbnail sample_job" by code_simp
  have thumb: "create_thumbnail no_thumbnail_env ''abc'' = Inl ThumbnailFailed" by code_simp
  have keys: "job_id sample_job = Some ''job1''" "image_id sample_job = Some ''img1''"
    "url sample_job = Some ''http://host/a.jpg''"
    by (simp_all add: sample_job_def)
  have paths: "original_path ''img1'' = ''original/img1/img1_original.jpg''"
    "thumbnail_path ''img1'' = ''thumbnails/img1/img1_thumb.jpg''"
    "bucket_name no_thumbnail_env = ''bucket''"
    by (simp_all add: original_path_def thumbnail_path_def no_thumbnail_env_def sample_env_def)
  from thumbnail_failure_fails_job [OF keys dl put opt, of ThumbnailFailed] thumb
  show ?thesis by (auto simp: paths)
qed

section \<open>The size guard of the download\<close>

text \<open>
  C4, as stated, fails: with no content-length header a body of 50MB and one byte is read
  whole and the download succeeds.
\<close>

theorem unbounded_body_counterexample:
  "content_length_header sample_response = None \<and>
   (case download_image oversized_env ''http://host/a.jpg'' of
      Inl e \<Rightarrow> False
    | Inr (image_data, metadata) \<Rightarrow>
        length image_data = 52428801 \<and> max_image_size < int (length image_data) \<and>
        dl_content_length metadata = 52428801)"
  by (simp add: download_image_def oversized_env_def sample_env_def sample_response_def
      lower_def lower_char_def startswith_def max_image_size_def)

text \<open>
  C4, amended. For an answer with status 200 and an image content type: a content-length
  header above the maximum makes the download fail before the body is read; with the
  header absent or at most the maximum, the whole body is read and returned, whatever its
  length.
\<close>

theorem size_guard_reads_header_only:
  assumes "http_get env u = Done response" and "http_status response = 200"
    and "startswith (lower (case content_type_header response of None \<Rightarrow> [] | Some v \<Rightarrow> v)) ''image/''"
  shows "(\<forall>v n. content_length_header response = Some v \<and> py_int v = Some n \<and> max_image_size < n \<longrightarrow>
            download_image env u = Inl (DownloadFailed (ImageTooLarge n))) \<and>
         (\<forall>image_data.
            (content_length_header response = None \<or>
             (\<exists>v n. content_length_header response = Some v \<and> py_int v = Some n \<and> n \<le> max_image_size)) \<and>
            body response = Done image_data \<longrightarrow>
            (\<exists>metadata. download_image env u = Inr (image_data, metadata) \<and>
               dl_content_length metadata = length image_data))"
  using assms by (auto simp: download_image_def Let_def max_image_size_def)

theorem size_guard_reads_header_only_witness:
  "\<exists>metadata. download_image oversized_env ''http://host/a.jpg'' =
       Inr (replicate 52428801 (CHR ''a''), metadata) \<and>
     dl_content_length metadata = length (replicate 52428801 (CHR ''a''))"
proof -
  let ?r = "sample_response\<lparr>body := Done (replicate 52428801 (CHR ''a''))\<rparr>"
  have g: "http_get oversized_env ''http://host/a.jpg'' = Done ?r"
    by (simp add: oversized_env_def sample_env_def)
  have s: "http_status ?r = 200" by (simp add: sample_response_def)
  have t: "startswith (lower (case content_type_header ?r of None \<Rightarrow> [] | Some v \<Rightarrow> v)) ''image/''"
    by (simp add: sample_response_def lower_def lower_char_def startswith_def)
  have h: "content_length_header ?r = None" "body ?r = Done (replicate 52428801 (CHR ''a''))"
    by (simp_all add: sample_response_def)
  from size_guard_reads_header_only [OF g s t] h show ?thesis by blast
qed

section \<open>Acknowledging messages\<close>

text \<open>
  C5, as stated, fails: the message of a job whose download fails is acknowledged.
\<close>

theorem failed_download_is_acknowledged:
  "download_image not_found_env ''http://host/a.jpg'' = Inl (DownloadFailed (HttpStatus 404)) \<and>
   (case process_message not_found_env (JobObject sample_job) of
      (Ack, Some (r, written)) \<Rightarrow> status r = JobFailed \<and> errors r = [DownloadFailed (HttpStatus 404)]
    | _ \<Rightarrow> False)"
  by code_simp

text \<open>
  C5, amended. A message is acknowledged exactly when it is a job object holding job_id,
  image_id and url, that is whenever the processor returns a result; a job whose download
  fails is acknowledged with a failed result; and an acknowledged result is terminal:
  completed with no error, or failed with one.
\<close>

theorem ack_whenever_processor_returns:
  "((fst (process_message env message) = Ack) =
      (\<exists>j jid iid u. message = JobObject j \<and> job_id j = Some jid \<and> image_id j = Some iid \<and>
         url j = Some u)) \<and>
   (\<forall>j jid iid u e. message = JobObject j \<and> job_id j = Some jid \<and> image_id j = Some iid \<and>
       url j = Some u \<and> download_image env u = Inl e \<longrightarrow>
       (\<exists>r. process_message env message = (Ack, Some (r, [])) \<and> status r = JobFailed \<and>
            errors r = [e])) \<and>
   (\<forall>r written. process_message env message = (Ack, Some (r, written)) \<longrightarrow>
       (status r = Completed \<and> errors r = []) \<or> (status r = JobFailed \<and> (\<exists>e. errors r = [e])))"
proof (intro conjI allI impI)
  show "(fst (process_message env message) = Ack) =
           (\<exists>j jid iid u. message = JobObject j \<and> job_id j = Some jid \<and> image_id j = Some iid \<and>
              url j = Some u)"
    by (cases message) (auto simp: process_message_def process_image_job_def split: option.splits)
next
  fix j jid iid u e
  assume "message = JobObject j \<and> job_id j = Some jid \<and> image_id j = Some iid \<and> url j = Some u \<and>
    download_image env u = Inl e"
  then show "\<exists>r. process_message env message = (Ack, Some (r, [])) \<and> status r = JobFailed \<and> errors r = [e]"
    by (simp add: process_message_def process_image_job_def run_stages_def handler_def)
next
  fix r written
  assume a: "process_message env message = (Ack, Some (r, written))"
  then obtain j jid iid u where "run_stages env j jid iid u = (r, written)"
    by (cases message) (auto simp: process_message_def process_image_job_def split: option.splits)
  then have "r = fst (run_stages env j jid iid u)" by simp
  with run_stages_result [of env j jid iid u]
  show "(status r = Completed \<and> errors r = []) \<or> (status r = JobFailed \<and> (\<exists>e. errors r = [e]))"
    by simp
qed

theorem ack_whenever_processor_returns_witness:
  "fst (process_message not_found_env (JobObject sample_job)) = Ack \<and>
   (\<exists>r. process_message not_found_env (JobObject sample_job) = (Ack, Some (r, [])) \<and>
        status r = JobFailed \<and> errors r = [DownloadFailed (HttpStatus 404)])"
proof -
  have k: "job_id sample_job = Some ''job1''" "image_id sample_job = Some ''img1''"
    "url sample_job = Some ''http://host/a.jpg''"
    by (simp_all add: sample_job_def)
  have d: "download_image not_found_env ''http://host/a.jpg'' = Inl (DownloadFailed (HttpStatus 404))"
    by code_simp
  from ack_whenever_processor_returns [of not_found_env "JobObject sample_job"] k d
  show ?thesis by blast
qed

section \<open>Decode failures\<close>




section \<open>The endpoint POST /process\<close>


lemma exif_dict_keys:
  "fst ` set (foldl (\<lambda>exif_data item. AList.update (tag_name env (fst item)) (snd item) exif_data) acc exif) =
     fst ` set acc \<union> tag_name env ` fst ` set exif"
proof (induction exif arbitrary: acc)
  case Nil
  then show ?case by simp
next
  case (Cons item exif)
  have "fst ` set (AList.update (tag_name env (fst item)) (snd item) acc) =
          insert (tag_name env (fst item)) (fst ` set acc)"
    by (simp add: dom_update)
  with Cons.IH [of "AList.update (tag_name env (fst item)) (snd item) acc"]
  show ?case by auto
qed

lemma mixed_keys_exif_dict:
  "mixed_keys (exif_dict env exif) \<longleftrightarrow>
     (\<exists>t \<in> fst ` set exif. exif_tags env t \<noteq> None) \<and> (\<exists>t \<in> fst ` set exif. exif_tags env t = None)"
proof -
  have keys: "fst ` set (exif_dict env exif) = tag_name env ` fst ` set exif"
    using exif_dict_keys [of env "[]" exif] by (simp add: exif_dict_def)
  have a: "list_ex (\<lambda>item. is_tag_name (fst item)) (exif_dict env exif) \<longleftrightarrow>
             (\<exists>k \<in> fst ` set (exif_dict env exif). is_tag_name k)"
    by (auto simp: list_ex_iff)
  have b: "list_ex (\<lambda>item. \<not> is_tag_name (fst item)) (exif_dict env exif) \<longleftrightarrow>
             (\<exists>k \<in> fst ` set (exif_dict env exif). \<not> is_tag_name k)"
    by (auto simp: list_ex_iff)
  have c: "is_tag_name (tag_name env t) \<longleftrightarrow> exif_tags env t \<noteq> None" for t
    by (simp add: is_tag_name_def tag_name_def split: option.splits)
  show ?thesis
    unfolding mixed_keys_def a b keys by (simp add: c)
qed




section \<open>The objects a job writes\<close>

lemma save_formats_keys:
  "k \<in> fst ` set (save_formats env rimg s fmts results) \<Longrightarrow>
     k \<in> fst ` set results \<or> (\<exists>f \<in> set fmts. codec_of f \<noteq> None \<and> k = s @ ''_'' @ lower f)"
proof (induction fmts arbitrary: results)
  case Nil
  then show ?case by simp
next
  case (Cons fmt fmts)
  show ?case
  proof (cases "codec_of fmt")
    case None
    with Cons.prems have "k \<in> fst ` set (save_formats env rimg s fmts results)" by simp
    from Cons.IH [OF this] show ?thesis by auto
  next
    case (Some c)
    show ?thesis
    proof (cases "pil_save env rimg c")
      case None
      with Some Cons.prems show ?thesis by simp
    next
      case (Some data)
      with \<open>codec_of fmt = Some c\<close> Cons.prems
      have "k \<in> fst ` set (save_formats env rimg s fmts
                (AList.update (s @ ''_'' @ lower fmt) data results))"
        by simp
      from Cons.IH [OF this] \<open>codec_of fmt = Some c\<close> show ?thesis
        by (auto simp: dom_update)
    qed
  qed
qed

lemma resize_target_keys:
  assumes "k \<in> fst ` set (resize_target env img fmts s results)"
  shows "k \<in> fst ` set results \<or> (\<exists>f \<in> set fmts. codec_of f \<noteq> None \<and> k = s @ ''_'' @ lower f)"
proof (cases "parse_size s")
  case (Inl err)
  with assms show ?thesis by (simp add: resize_target_def)
next
  case (Inr wh)
  obtain w h where wh: "wh = (w, h)" by (cases wh)
  show ?thesis
  proof (cases "new_size (img_width img) (img_height img) w h")
    case (Inl err)
    with assms Inr wh show ?thesis by (simp add: resize_target_def)
  next
    case dims: (Inr dims)
    show ?thesis
    proof (cases "pil_resize env img dims")
      case None
      with assms Inr wh dims show ?thesis by (simp add: resize_target_def)
    next
      case (Some resized_img)
      with assms Inr wh dims
      have "k \<in> fst ` set (save_formats env resized_img s fmts results)"
        by (simp add: resize_target_def)
      from save_formats_keys [OF this] show ?thesis .
    qed
  qed
qed

lemma resize_targets_keys:
  "k \<in> fst ` set (foldl (\<lambda>results size_str. resize_target env img fmts size_str results) acc sizes) \<Longrightarrow>
     k \<in> fst ` set acc \<or>
     (\<exists>s \<in> set sizes. \<exists>f \<in> set fmts. codec_of f \<noteq> None \<and> k = s @ ''_'' @ lower f)"
proof (induction sizes arbitrary: acc)
  case Nil
  then show ?case by simp
next
  case (Cons s sizes)
  from Cons.prems
  have "k \<in> fst ` set (foldl (\<lambda>results size_str. resize_target env img fmts size_str results)
            (resize_target env img fmts s acc) sizes)"
    by simp
  from Cons.IH [OF this] show ?case
  proof
    assume "k \<in> fst ` set (resize_target env img fmts s acc)"
    from resize_target_keys [OF this] show ?thesis by auto
  next
    assume "\<exists>s \<in> set sizes. \<exists>f \<in> set fmts. codec_of f \<noteq> None \<and> k = s @ ''_'' @ lower f"
    then show ?thesis by auto
  qed
qed

lemma resize_image_keys:
  assumes "k \<in> fst ` set (resize_image env d sizes fmts)"
  shows "\<exists>s \<in> set sizes. \<exists>f \<in> set fmts. codec_of f \<noteq> None \<and> k = s @ ''_'' @ lower f"
proof -
  from assms obtain img
    where "k \<in> fst ` set (foldl (\<lambda>results size_str. resize_target env img fmts size_str results) [] sizes)"
    by (auto simp: resize_image_def split: option.splits)
  from resize_targets_keys [OF this] show ?thesis by simp
qed

lemma upload_to_storage_written:
  "set (snd (upload_to_storage env d p w)) \<subseteq> insert p (set w)"
  by (auto simp: upload_to_storage_def split: put_outcome.splits)

lemma thumbnail_step_written:
  "set (case_sum snd snd (thumbnail_step env j iid d st)) \<subseteq> insert (thumbnail_path iid) (set (snd st))"
proof (cases "get_create_thumbnail j")
  case False
  then show ?thesis by (auto simp: thumbnail_step_def)
next
  case True
  show ?thesis
  proof (cases "create_thumbnail env d")
    case (Inl e)
    with True show ?thesis by (auto simp: thumbnail_step_def handler_fields)
  next
    case (Inr t)
    obtain x w where up: "upload_to_storage env t (thumbnail_path iid) (snd st) = (x, w)"
      by (cases "upload_to_storage env t (thumbnail_path iid) (snd st)")
    with upload_to_storage_written [of env t "thumbnail_path iid" "snd st"]
    have w: "set w \<subseteq> insert (thumbnail_path iid) (set (snd st))" by simp
    with True Inr up show ?thesis
      by (cases x) (auto simp: thumbnail_step_def handler_fields)
  qed
qed

lemma upload_resized_written:
  "set (case_sum snd snd (upload_resized env iid items st)) \<subseteq>
     set (snd st) \<union> resized_path iid ` fst ` set items"
proof (induction items arbitrary: st)
  case Nil
  then show ?case by simp
next
  case (Cons item items)
  obtain k v where item: "item = (k, v)" by (cases item)
  obtain x w where up: "upload_to_storage env v (resized_path iid k) (snd st) = (x, w)"
    by (cases "upload_to_storage env v (resized_path iid k) (snd st)")
  with upload_to_storage_written [of env v "resized_path iid k" "snd st"]
  have w: "set w \<subseteq> insert (resized_path iid k) (set (snd st))" by simp
  show ?case
  proof (cases x)
    case (Inl e)
    with item up w show ?thesis by (auto simp: handler_fields)
  next
    case (Inr u)
    from Cons.IH [of "((fst st)\<lparr>out_resized := map_option (AList.update k u) (out_resized (fst st))\<rparr>, w)"]
    have "set (case_sum snd snd (upload_resized env iid items
              ((fst st)\<lparr>out_resized := map_option (AList.update k u) (out_resized (fst st))\<rparr>, w))) \<subseteq>
          set w \<union> resized_path iid ` fst ` set items"
      by simp
    with item up Inr w show ?thesis by auto
  qed
qed

lemma resize_step_written:
  "set (case_sum snd snd (resize_step env j iid d st)) \<subseteq>
     set (snd st) \<union>
     resized_path iid `
       {s @ ''_'' @ lower f | s f.
          s \<in> set (get_resize_formats j) \<and> f \<in> set (get_output_formats j) \<and> codec_of f \<noteq> None}"
proof (cases "get_resize_formats j = []")
  case True
  then show ?thesis by (simp add: resize_step_def)
next
  case False
  let ?items = "resize_image env d (get_resize_formats j) (get_output_formats j)"
  let ?st = "((fst st)\<lparr>out_resized := Some []\<rparr>, snd st)"
  have rs: "resize_step env j iid d st = upload_resized env iid ?items ?st"
    using False by (simp add: resize_step_def)
  show ?thesis
  proof
    fix p
    assume "p \<in> set (case_sum snd snd (resize_step env j iid d st))"
    with rs upload_resized_written [of env iid ?items ?st]
    have "p \<in> set (snd st) \<or> p \<in> resized_path iid ` fst ` set ?items" by auto
    then show "p \<in> set (snd st) \<union>
        resized_path iid `
          {s @ ''_'' @ lower f | s f.
             s \<in> set (get_resize_formats j) \<and> f \<in> set (get_output_formats j) \<and> codec_of f \<noteq> None}"
    proof
      assume "p \<in> set (snd st)"
      then show ?thesis by simp
    next
      assume "p \<in> resized_path iid ` fst ` set ?items"
      then obtain k where k: "k \<in> fst ` set ?items" and p: "p = resized_path iid k" by blast
      from resize_image_keys [OF k] obtain s f
        where "s \<in> set (get_resize_formats j)" "f \<in> set (get_output_formats j)"
          "codec_of f \<noteq> None" "k = s @ ''_'' @ lower f"
        by blast
      with p show ?thesis by blast
    qed
  qed
qed

lemma run_stages_written:
  "set (snd (run_stages env j jid iid u)) \<subseteq>
     {original_path iid, thumbnail_path iid} \<union>
     resized_path iid `
       {s @ ''_'' @ lower f | s f.
          s \<in> set (get_resize_formats j) \<and> f \<in> set (get_output_formats j) \<and> codec_of f \<noteq> None}"
  (is "_ \<subseteq> ?S")
proof (cases "download_image env u")
  case (Inl e)
  then show ?thesis by (simp add: run_stages_def handler_fields)
next
  case (Inr p)
  obtain d dm where p: "p = (d, dm)" by (cases p)
  obtain x w where up: "upload_to_storage env d (original_path iid) [] = (x, w)"
    by (cases "upload_to_storage env d (original_path iid) []")
  with upload_to_storage_written [of env d "original_path iid" "[]"]
  have w: "set w \<subseteq> {original_path iid}" by simp
  show ?thesis
  proof (cases x)
    case (Inl e)
    with Inr p up w show ?thesis by (auto simp: run_stages_def Let_def handler_fields)
  next
    case x: (Inr ourl)
    define st3 where "st3 = (\<lparr>res_job_id = jid, res_image_id = iid, res_original_url = u,
        status = Processing, out_original = Some ourl, out_thumbnail = None, out_resized = None,
        meta_download = Some dm, meta_image = Some (extract_image_metadata env d), errors = []\<rparr>, w)"
    have rs: "run_stages env j jid iid u =
        (case thumbnail_step env j iid d st3 of
           Inl st \<Rightarrow> st
         | Inr st4 \<Rightarrow> (case resize_step env j iid d st4 of
                         Inl st \<Rightarrow> st
                       | Inr st5 \<Rightarrow> ((fst st5)\<lparr>status := Completed\<rparr>, snd st5)))"
      using Inr p up x by (simp add: run_stages_def Let_def st3_def)
    have t: "set (case_sum snd snd (thumbnail_step env j iid d st3)) \<subseteq>
               {original_path iid, thumbnail_path iid}"
      using thumbnail_step_written [of env j iid d st3] w by (auto simp: st3_def)
    show ?thesis
    proof (cases "thumbnail_step env j iid d st3")
      case (Inl st)
      with rs t show ?thesis by auto
    next
      case t4: (Inr st4)
      with t have s4: "set (snd st4) \<subseteq> {original_path iid, thumbnail_path iid}" by simp
      from resize_step_written [of env j iid d st4] s4
      have "set (case_sum snd snd (resize_step env j iid d st4)) \<subseteq> ?S" by blast
      with rs t4 show ?thesis by (cases "resize_step env j iid d st4") auto
    qed
  qed
qed

section \<open>Runs that differ in job_id and url only\<close>

lemma map_sum_eq_InlD:
  "map_sum f g x = map_sum f g y \<Longrightarrow> x = Inl a \<Longrightarrow> \<exists>b. y = Inl b \<and> f a = f b"
  by (cases y) auto

lemma map_sum_eq_InrD:
  "map_sum f g x = map_sum f g y \<Longrightarrow> x = Inr a \<Longrightarrow> \<exists>b. y = Inr b \<and> g a = g b"
  by (cases y) auto

lemma options_determine_getters:
  assumes "options j1 = options j2"
  shows "get_create_thumbnail j1 = get_create_thumbnail j2"
    and "get_resize_formats j1 = get_resize_formats j2"
    and "get_output_formats j1 = get_output_formats j2"
  using assms
  by (simp_all add: get_create_thumbnail_def get_resize_formats_def get_output_formats_def)

lemma download_image_same_answer:
  assumes "http_get env u1 = http_get env u2"
  shows "map_sum (\<lambda>e. ()) fst (download_image env u1) = map_sum (\<lambda>e. ()) fst (download_image env u2)"
  using assms
  by (auto simp: download_image_def Let_def split: io.splits option.splits)

lemma thumbnail_step_same_writes:
  assumes "options j1 = options j2" and "snd st1 = snd st2"
  shows "map_sum snd snd (thumbnail_step env j1 iid d st1) =
         map_sum snd snd (thumbnail_step env j2 iid d st2)"
proof (cases "get_create_thumbnail j1")
  case False
  with assms options_determine_getters(1) [OF assms(1)] show ?thesis
    by (simp add: thumbnail_step_def)
next
  case True
  with options_determine_getters(1) [OF assms(1)] have t2: "get_create_thumbnail j2" by simp
  show ?thesis
  proof (cases "create_thumbnail env d")
    case (Inl e)
    with True t2 assms(2) show ?thesis by (simp add: thumbnail_step_def handler_fields)
  next
    case (Inr t)
    obtain x w where up: "upload_to_storage env t (thumbnail_path iid) (snd st1) = (x, w)"
      by (cases "upload_to_storage env t (thumbnail_path iid) (snd st1)")
    with True t2 Inr assms(2) show ?thesis
      by (cases x) (simp_all add: thumbnail_step_def handler_fields)
  qed
qed

lemma upload_resized_same_writes:
  "snd st1 = snd st2 \<Longrightarrow>
     map_sum snd snd (upload_resized env iid items st1) =
     map_sum snd snd (upload_resized env iid items st2)"
proof (induction items arbitrary: st1 st2)
  case Nil
  then show ?case by simp
next
  case (Cons item items)
  obtain k v where item: "item = (k, v)" by (cases item)
  obtain x w where up: "upload_to_storage env v (resized_path iid k) (snd st1) = (x, w)"
    by (cases "upload_to_storage env v (resized_path iid k) (snd st1)")
  show ?case
  proof (cases x)
    case (Inl e)
    with item up Cons.prems show ?thesis by (simp add: handler_fields)
  next
    case (Inr u)
    have "map_sum snd snd (upload_resized env iid items
             ((fst st1)\<lparr>out_resized := map_option (AList.update k u) (out_resized (fst st1))\<rparr>, w)) =
          map_sum snd snd (upload_resized env iid items
             ((fst st2)\<lparr>out_resized := map_option (AList.update k u) (out_resized (fst st2))\<rparr>, w))"
      by (rule Cons.IH) simp
    with item up Inr Cons.prems show ?thesis by simp
  qed
qed

lemma resize_step_same_writes:
  assumes "options j1 = options j2" and "snd st1 = snd st2"
  shows "map_sum snd snd (resize_step env j1 iid d st1) =
         map_sum snd snd (resize_step env j2 iid d st2)"
proof -
  note g = options_determine_getters(2,3) [OF assms(1)]
  show ?thesis
  proof (cases "get_resize_formats j1 = []")
    case True
    with g assms(2) show ?thesis by (simp add: resize_step_def)
  next
    case False
    have "map_sum snd snd (upload_resized env iid
              (resize_image env d (get_resize_formats j1) (get_output_formats j1))
              ((fst st1)\<lparr>out_resized := Some []\<rparr>, snd st1)) =
          map_sum snd snd (upload_resized env iid
              (resize_image env d (get_resize_formats j1) (get_output_formats j1))
              ((fst st2)\<lparr>out_resized := Some []\<rparr>, snd st2))"
      by (rule upload_resized_same_writes) (simp add: assms(2))
    with False g show ?thesis by (simp add: resize_step_def)
  qed
qed

lemma run_stages_same_writes:
  assumes o: "options j1 = options j2" and g: "http_get env u1 = http_get env u2"
  shows "snd (run_stages env j1 jid1 iid u1) = snd (run_stages env j2 jid2 iid u2)"
proof (cases "download_image env u1")
  case (Inl e1)
  from map_sum_eq_InlD [OF download_image_same_answer [OF g] Inl]
  obtain e2 where "download_image env u2 = Inl e2" by blast
  with Inl show ?thesis by (simp add: run_stages_def handler_fields)
next
  case (Inr p1)
  from map_sum_eq_InrD [OF download_image_same_answer [OF g] Inr]
  obtain p2 where d2: "download_image env u2 = Inr p2" and same: "fst p1 = fst p2" by blast
  obtain d dm1 where p1: "p1 = (d, dm1)" by (cases p1)
  with same obtain dm2 where p2: "p2 = (d, dm2)" by (cases p2) auto
  obtain x w where up: "upload_to_storage env d (original_path iid) [] = (x, w)"
    by (cases "upload_to_storage env d (original_path iid) []")
  show ?thesis
  proof (cases x)
    case (Inl e)
    with Inr d2 p1 p2 up show ?thesis by (simp add: run_stages_def Let_def handler_fields)
  next
    case x: (Inr ourl)
    define a3 where "a3 = (\<lparr>res_job_id = jid1, res_image_id = iid, res_original_url = u1,
        status = Processing, out_original = Some ourl, out_thumbnail = None, out_resized = None,
        meta_download = Some dm1, meta_image = Some (extract_image_metadata env d), errors = []\<rparr>, w)"
    define b3 where "b3 = (\<lparr>res_job_id = jid2, res_image_id = iid, res_original_url = u2,
        status = Processing, out_original = Some ourl, out_thumbnail = None, out_resized = None,
        meta_download = Some dm2, meta_image = Some (extract_image_metadata env d), errors = []\<rparr>, w)"
    have ra: "run_stages env j1 jid1 iid u1 =
        (case thumbnail_step env j1 iid d a3 of
           Inl st \<Rightarrow> st
         | Inr st4 \<Rightarrow> (case resize_step env j1 iid d st4 of
                         Inl st \<Rightarrow> st
                       | Inr st5 \<Rightarrow> ((fst st5)\<lparr>status := Completed\<rparr>, snd st5)))"
      using Inr p1 up x by (simp add: run_stages_def Let_def a3_def)
    have rb: "run_stages env j2 jid2 iid u2 =
        (case thumbnail_step env j2 iid d b3 of
           Inl st \<Rightarrow> st
         | Inr st4 \<Rightarrow> (case resize_step env j2 iid d st4 of
                         Inl st \<Rightarrow> st
                       | Inr st5 \<Rightarrow> ((fst st5)\<lparr>status := Completed\<rparr>, snd st5)))"
      using d2 p2 up x by (simp add: run_stages_def Let_def b3_def)
    have t: "map_sum snd snd (thumbnail_step env j1 iid d a3) =
             map_sum snd snd (thumbnail_step env j2 iid d b3)"
      by (rule thumbnail_step_same_writes [OF o]) (simp add: a3_def b3_def)
    show ?thesis
    proof (cases "thumbnail_step env j1 iid d a3")
      case (Inl a)
      from map_sum_eq_InlD [OF t Inl] obtain b
        where "thumbnail_step env j2 iid d b3 = Inl b" "snd a = snd b" by blast
      with ra rb Inl show ?thesis by simp
    next
      case a4: (Inr a4)
      from map_sum_eq_InrD [OF t a4] obtain b4
        where b4: "thumbnail_step env j2 iid d b3 = Inr b4" and s4: "snd a4 = snd b4" by blast
      have r: "map_sum snd snd (resize_step env j1 iid d a4) =
               map_sum snd snd (resize_step env j2 iid d b4)"
        by (rule resize_step_same_writes [OF o s4])
      show ?thesis
      proof (cases "resize_step env j1 iid d a4")
        case (Inl a)
        from map_sum_eq_InlD [OF r Inl] obtain b
          where "resize_step env j2 iid d b4 = Inl b" "snd a = snd b" by blast
        with ra rb a4 b4 Inl show ?thesis by simp
      next
        case (Inr a5)
        from map_sum_eq_InrD [OF r Inr] obtain b5
          where "resize_step env j2 iid d b4 = Inr b5" "snd a5 = snd b5" by blast
        with ra rb a4 b4 Inr show ?thesis by simp
      qed
    qed
  qed
qed

section \<open>The names of the stored objects\<close>




text \<open>
  C8, as stated, fails: two runs of the same job write different sets of objects when the
  download succeeds in one and fails in the other.
\<close>

theorem rerun_paths_counterexample:
  "image_id sample_job = Some ''img1'' \<and>
   (case (process_image_job sample_env sample_job, process_image_job not_found_env sample_job) of
      (Inr (r1, written1), Inr (r2, written2)) \<Rightarrow>
        written1 = [''original/img1/img1_original.jpg'', ''thumbnails/img1/img1_thumb.jpg'',
                    ''resized/img1/img1_800x600_jpeg''] \<and>
        written2 = []
    | _ \<Rightarrow> False)"
  by code_simp

text \<open>
  C8, amended. For two runs on jobs with the same image_id and the same processing options,
  every object written by either run has a name from one set that image_id and the options
  fix (the original, the thumbnail, and one name per requested size and supported format),
  whatever the job_id, the url and the collaborators' answers; and when the two runs meet
  the same collaborators and the same download answer, they write the same objects in the
  same order.
\<close>

theorem paths_fixed_by_image_id_and_options:
  assumes "image_id j1 = Some iid" and "image_id j2 = Some iid" and "options j1 = options j2"
    and "process_image_job env1 j1 = Inr (r1, written1)"
    and "process_image_job env2 j2 = Inr (r2, written2)"
  shows "set written1 \<union> set written2 \<subseteq>
           {original_path iid, thumbnail_path iid} \<union>
           resized_path iid `
             {size @ ''_'' @ lower fmt | size fmt.
                size \<in> set (get_resize_formats j1) \<and> fmt \<in> set (get_output_formats j1) \<and>
                codec_of fmt \<noteq> None} \<and>
         (\<forall>u1 u2. env1 = env2 \<and> url j1 = Some u1 \<and> url j2 = Some u2 \<and>
            http_get env1 u1 = http_get env1 u2 \<longrightarrow> written1 = written2)"
proof (intro conjI allI impI)
  from assms(1,4) obtain jid1 v1 where k1: "url j1 = Some v1"
    and r1: "run_stages env1 j1 jid1 iid v1 = (r1, written1)"
    by (auto simp: process_image_job_def split: option.splits)
  from assms(2,5) obtain jid2 v2 where k2: "url j2 = Some v2"
    and r2: "run_stages env2 j2 jid2 iid v2 = (r2, written2)"
    by (auto simp: process_image_job_def split: option.splits)
  have w1: "written1 = snd (run_stages env1 j1 jid1 iid v1)" using r1 by simp
  have w2: "written2 = snd (run_stages env2 j2 jid2 iid v2)" using r2 by simp
  note g = options_determine_getters [OF assms(3)]
  from run_stages_written [of env1 j1 jid1 iid v1] run_stages_written [of env2 j2 jid2 iid v2]
  show "set written1 \<union> set written2 \<subseteq>
           {original_path iid, thumbnail_path iid} \<union>
           resized_path iid `
             {size @ ''_'' @ lower fmt | size fmt.
                size \<in> set (get_resize_formats j1) \<and> fmt \<in> set (get_output_formats j1) \<and>
                codec_of fmt \<noteq> None}"
    unfolding w1 w2 g by (rule Un_least)
  fix u1 u2
  assume a: "env1 = env2 \<and> url j1 = Some u1 \<and> url j2 = Some u2 \<and>
    http_get env1 u1 = http_get env1 u2"
  then have e: "env2 = env1" and h: "http_get env1 u1 = http_get env1 u2" by blast+
  from a k1 k2 have v: "v1 = u1" "v2 = u2" by simp_all
  from run_stages_same_writes [OF assms(3) h, of jid1 iid jid2]
  show "written1 = written2" unfolding w1 w2 v e .
qed

theorem paths_fixed_by_image_id_and_options_witness:
  "\<exists>r1 r2 written.
     process_image_job sample_env sample_job = Inr (r1, written) \<and>
     process_image_job sample_env
       (sample_job\<lparr>job_id := Some ''job2'', url := Some ''http://host/b.jpg''\<rparr>) = Inr (r2, written)"
proof -
  let ?j2 = "sample_job\<lparr>job_id := Some ''job2'', url := Some ''http://host/b.jpg''\<rparr>"
  obtain r1 w1 where p1: "process_image_job sample_env sample_job = Inr (r1, w1)"
    by (cases "run_stages sample_env sample_job ''job1'' ''img1'' ''http://host/a.jpg''")
       (simp add: process_image_job_def sample_job_def)
  obtain r2 w2 where p2: "process_image_job sample_env ?j2 = Inr (r2, w2)"
    by (cases "run_stages sample_env ?j2 ''job2'' ''img1'' ''http://host/b.jpg''")
       (simp add: process_image_job_def sample_job_def)
  have k: "image_id sample_job = Some ''img1''" "image_id ?j2 = Some ''img1''"
    "options sample_job = options ?j2"
    "url sample_job = Some ''http://host/a.jpg''" "url ?j2 = Some ''http://host/b.jpg''"
    "http_get sample_env ''http://host/a.jpg'' = http_get sample_env ''http://host/b.jpg''"
    by (simp_all add: sample_job_def sample_env_def)
  from paths_fixed_by_image_id_and_options [OF k(1,2,3) p1 p2] k(4,5,6)
  have "w1 = w2" by blast
  with p1 p2 show ?thesis by blast
qed

end
